theory Spec2Isabelle
  imports Main "HOL-Library.Word"
begin

section \<open>The watch event model (package generic)\<close>

text \<open>
  \<^verbatim>\<open>type WatchEventType byte\<close> with the four constants
  \<^verbatim>\<open>CREATE WatchEventType = 0x01 << iota\<close>, \<^verbatim>\<open>UPDATE\<close>, \<^verbatim>\<open>DELETE\<close>, \<^verbatim>\<open>ERROR\<close>.
  The type is a byte, so values other than the four tags exist.
\<close>

type_synonym WatchEventType = "8 word"

definition CREATE :: WatchEventType where "CREATE = push_bit 0 1"
definition UPDATE :: WatchEventType where "UPDATE = push_bit 1 1"
definition DELETE :: WatchEventType where "DELETE = push_bit 2 1"
definition ERROR :: WatchEventType where "ERROR = push_bit 3 1"

text \<open>The map \<^verbatim>\<open>WatchEventTypeName\<close> and the stringer built on it.\<close>

definition WatchEventTypeName :: "8 word \<Rightarrow> string option" where
  "WatchEventTypeName b =
     (if b = 0x01 then Some ''CREATE''
      else if b = 0x02 then Some ''UPDATE''
      else if b = 0x04 then Some ''DELETE''
      else if b = 0x08 then Some ''ERROR''
      else None)"

definition String :: "WatchEventType \<Rightarrow> string" where
  "String ty = (case WatchEventTypeName ty of Some v \<Rightarrow> v | None \<Rightarrow> ''<invalid>'')"

text \<open>A Go \<^verbatim>\<open>error\<close> value that is not nil; \<^verbatim>\<open>nil\<close> is \<open>None\<close> of \<open>error option\<close>.\<close>

datatype error = Error string

text \<open>Instants in nanoseconds since the zero instant, durations in nanoseconds.\<close>

type_synonym Time = int
type_synonym Duration = int

text \<open>
  The interface \<^verbatim>\<open>SortableObject\<close> gives every object these getters (each with a setter);
  the scheduler also assigns the field \<^verbatim>\<open>State\<close> of a discovered-machines object. The
  concrete structs behind the interface are not part of the scheduler: one record carries
  all the attributes the scheduler can read or write.
\<close>

record Object =
  GetGUID :: string
  GetKind :: string
  GetName :: string
  GetNamespace :: string
  GetCreationTimestamp :: Time
  GetUpdatingTimestamp :: "Time option"
  IsDeleting :: bool
  State :: string

record WatchEvent =
  Type :: WatchEventType
  Kind :: string
  Key :: string
  Value :: "8 word list"

text \<open>
  \<^verbatim>\<open>func (in *WatchEvent) Unmarshal(cv Object) error { return json.Unmarshal(in.Value, cv) }\<close>.
  The JSON decoder is a library: it is a parameter, a function of the payload and of the
  object it fills, returning the error (or nil) and the object as it left it.
\<close>

type_synonym json_decoder = "8 word list \<Rightarrow> Object \<Rightarrow> error option \<times> Object"

definition Unmarshal :: "json_decoder \<Rightarrow> WatchEvent \<Rightarrow> Object \<Rightarrow> error option \<times> Object" where
  "Unmarshal json_Unmarshal this cv = json_Unmarshal (Value this) cv"

section \<open>The world the scheduler acts on\<close>

type_synonym chan = nat
type_synonym Watcher = nat
type_synonym Executor = nat

datatype WatchMode = WatchOnKind | WatchOnName

text \<open>The goroutines the loop starts with \<^verbatim>\<open>go in.Handler.f(...)\<close>.\<close>

datatype task =
    Task_refreshMachineSnapshotOnEvent WatchEvent
  | Task_refreshDicoveredMachinesOnEvent WatchEvent
  | Task_createMachineDigestOnTime
  | Task_autoDiscoveryOnTime

text \<open>
  Every call that leaves the scheduler (storage, watchers, the timer, channels, the logger,
  the random source, the executors, goroutine starts) is appended to a trace, in program
  order.
\<close>

datatype effect =
    Storage_Watch Object WatchMode
  | Storage_Create Object
  | Storage_Update Object
  | Watcher_Output Watcher
  | Watcher_Close Watcher
  | time_NewTimer Duration
  | Timer_Reset Duration
  | Timer_Stop
  | Go task
  | close_chan chan
  | Logger_Info string
  | Logger_Error error
  | Logger_Errorf string error
  | Logger_Sync
  | rand_Seed int
  | NotifyDigest Executor Object
  | NotifyDiscoveredMachines Executor Object

datatype panic =
    nil_pointer_dereference
  | close_of_closed_channel
  | invalid_argument_to_Intn
  | index_out_of_range

text \<open>
  The state outside the server value: the backing store (its type \<open>'st\<close> belongs to the
  storage adapter), the trace, the wall clock (\<open>now_at w k\<close> is what the \<open>k\<close>-th call of
  \<^verbatim>\<open>time.Now()\<close> returns) and the channels made so far (\<open>True\<close> once closed).
\<close>

record 'st world =
  store :: 'st
  trace :: "effect list"
  now_at :: "nat \<Rightarrow> Time"
  reads :: nat
  chans :: "bool list"

definition emit :: "effect \<Rightarrow> 'st world \<Rightarrow> 'st world" where
  "emit e w = w\<lparr>trace := trace w @ [e]\<rparr>"

definition time_Now :: "'st world \<Rightarrow> Time \<times> 'st world" where
  "time_Now w = (now_at w (reads w), w\<lparr>reads := Suc (reads w)\<rparr>)"

text \<open>\<^verbatim>\<open>make(chan struct{}, 1)\<close>: a new, open channel.\<close>

definition make_chan :: "'st world \<Rightarrow> chan \<times> 'st world" where
  "make_chan w = (length (chans w), w\<lparr>chans := chans w @ [False]\<rparr>)"

text \<open>\<^verbatim>\<open>close(c)\<close> panics on a channel that is already closed (or was never made).\<close>

definition close :: "chan \<Rightarrow> 'st world \<Rightarrow> panic + 'st world" where
  "close c w =
     (if c < length (chans w) \<and> \<not> chans w ! c
      then Inr (emit (close_chan c) (w\<lparr>chans := (chans w)[c := True]\<rparr>))
      else Inl close_of_closed_channel)"

subsection \<open>Package time\<close>

definition Minute :: Duration where "Minute = 60 * 1000000000"

definition minDuration :: Duration where "minDuration = - (2 ^ 63)"
definition maxDuration :: Duration where "maxDuration = 2 ^ 63 - 1"

definition IsZero :: "Time \<Rightarrow> bool" where "IsZero t = (t = 0)"

text \<open>\<^verbatim>\<open>t.Sub(u)\<close> is the duration \<open>t - u\<close>, saturated to the range of a 64-bit duration.\<close>

definition Sub :: "Time \<Rightarrow> Time \<Rightarrow> Duration" where
  "Sub t u =
     (if minDuration \<le> t - u \<and> t - u \<le> maxDuration then t - u
      else if t < u then minDuration else maxDuration)"

text \<open>\<^verbatim>\<open>t.Unix()\<close>: seconds since 1970, the zero instant being year 1.\<close>

definition Unix :: "Time \<Rightarrow> int" where
  "Unix t = t div 1000000000 - 62135596800"

subsection \<open>Package math/rand\<close>

text \<open>
  \<^verbatim>\<open>rand.Intn(n)\<close> panics if \<open>n \<le> 0\<close> and otherwise reduces a draw of the seeded source
  into the half-open range \<open>[0, n)\<close>. The source is a parameter: \<open>src seed n\<close> is the draw.
\<close>

definition Intn :: "(int \<Rightarrow> int \<Rightarrow> nat) \<Rightarrow> int \<Rightarrow> int \<Rightarrow> panic + int" where
  "Intn src seed n =
     (if n \<le> 0 then Inl invalid_argument_to_Intn else Inr (int (src seed n) mod n))"

text \<open>Indexing a slice panics out of range.\<close>

definition index :: "'a list \<Rightarrow> int \<Rightarrow> panic + 'a" where
  "index xs i =
     (if 0 \<le> i \<and> i < int (length xs) then Inr (xs ! nat i) else Inl index_out_of_range)"

subsection \<open>The storage capability and the other collaborators\<close>

text \<open>
  The interface \<^verbatim>\<open>Storage\<close>, as far as the scheduler calls it: each method is a function
  of the backing store. \<^verbatim>\<open>Create\<close> and \<^verbatim>\<open>Update\<close> return an error or nil; \<^verbatim>\<open>Watch\<close>, which
  the scheduler calls with an object and a scope mode, returns a watcher or an error. A
  watcher is known by a number; its \<^verbatim>\<open>Output()\<close> and \<^verbatim>\<open>Close()\<close> calls go to the trace.
\<close>

record 'st Storage =
  Create :: "Object \<Rightarrow> 'st \<Rightarrow> error option \<times> 'st"
  Update :: "Object \<Rightarrow> 'st \<Rightarrow> error option \<times> 'st"
  Watch :: "Object \<Rightarrow> WatchMode \<Rightarrow> 'st \<Rightarrow> (error + Watcher) \<times> 'st"

text \<open>
  What the scheduler imports and the source files at hand do not define: the three
  object constructors and the constant \<^verbatim>\<open>StartedState\<close> of package generic, its
  classifier \<^verbatim>\<open>IsInternalError\<close>, and the libraries (JSON decoder, random source, cron
  parser). A cron schedule is its method \<^verbatim>\<open>Next\<close>.
\<close>

type_synonym Schedule = "Time \<Rightarrow> Time"

record Externals =
  NewMachine :: Object
  NewMachineDigest :: Object
  NewDiscoveredMachines :: Object
  StartedState :: string
  IsInternalError :: "error \<Rightarrow> bool"
  json_Unmarshal :: json_decoder
  rand_src :: "int \<Rightarrow> int \<Rightarrow> nat"
  cron_Parse :: "string \<Rightarrow> error + Schedule"

section \<open>The dispatch handler (handler.go)\<close>

record 'st Handler =
  executor :: "Executor list"
  storage :: "'st Storage"

definition NewHandler :: "'st Storage \<Rightarrow> 'st Handler" where
  "NewHandler sto = \<lparr>executor = [], storage = sto\<rparr>"

definition RegisterExecutor :: "Executor \<Rightarrow> 'st Handler \<Rightarrow> 'st Handler" where
  "RegisterExecutor exec this = this\<lparr>executor := executor this @ [exec]\<rparr>"

text \<open>A storage call is traced, then run on the backing store.\<close>

definition storage_Create :: "'st Storage \<Rightarrow> Object \<Rightarrow> 'st world \<Rightarrow> error option \<times> 'st world" where
  "storage_Create s obj w =
     (case Create s obj (store w) of
        (err, st) \<Rightarrow> (err, (emit (Storage_Create obj) w)\<lparr>store := st\<rparr>))"

definition storage_Update :: "'st Storage \<Rightarrow> Object \<Rightarrow> 'st world \<Rightarrow> error option \<times> 'st world" where
  "storage_Update s obj w =
     (case Update s obj (store w) of
        (err, st) \<Rightarrow> (err, (emit (Storage_Update obj) w)\<lparr>store := st\<rparr>))"

definition storage_Watch ::
  "'st Storage \<Rightarrow> Object \<Rightarrow> WatchMode \<Rightarrow> 'st world \<Rightarrow> (error + Watcher) \<times> 'st world" where
  "storage_Watch s obj m w =
     (case Watch s obj m (store w) of
        (r, st) \<Rightarrow> (r, (emit (Storage_Watch obj m) w)\<lparr>store := st\<rparr>))"

text \<open>
  A handler runs to its end or panics; either way its deferred \<^verbatim>\<open>in.logger.Sync()\<close> runs
  last.
\<close>

definition createMachineDigestOnTime ::
  "Externals \<Rightarrow> 'st Handler \<Rightarrow> 'st world \<Rightarrow> panic option \<times> 'st world" where
  "createMachineDigestOnTime X this w =
     (let w1 = emit (Logger_Info ''Creating a new digest on schedule'') w;
          digest = NewMachineDigest X;
          (err, w2) = storage_Create (storage this) digest w1;
          w3 = (case err of
                  Some e \<Rightarrow> emit (Logger_Errorf ''Could not create new machine digest due to: %v'' e) w2
                | None \<Rightarrow> w2)
      in (None, emit Logger_Sync w3))"

text \<open>
  The label \<^verbatim>\<open>RETRY\<close> of \<^verbatim>\<open>autoDiscoveryOnTime\<close>: a loop that ends when \<open>err\<close> is nil or
  classified internal, and otherwise calls \<^verbatim>\<open>Create\<close> and jumps back. It need not end:
  \<open>None\<close> is the run that never leaves the loop.
\<close>

partial_function (option) RETRY ::
  "Externals \<Rightarrow> 'st Handler \<Rightarrow> Object \<Rightarrow> error option \<Rightarrow> 'st world \<Rightarrow> 'st world option" where
  "RETRY X this latest err w =
     (case err of
        None \<Rightarrow> Some w
      | Some e \<Rightarrow>
          if \<not> IsInternalError X e
          then (case storage_Create (storage this) latest w of (err', w') \<Rightarrow> RETRY X this latest err' w')
          else Some (emit (Logger_Errorf ''Could not mark auto-discovery as `STARTED` state: %v'' e) w))"

definition autoDiscoveryOnTime ::
  "Externals \<Rightarrow> 'st Handler \<Rightarrow> 'st world \<Rightarrow> (panic option \<times> 'st world) option" where
  "autoDiscoveryOnTime X this w =
     (let w1 = emit (Logger_Info ''Auto-discovering new machines on preset zones...'') w;
          latest = (NewDiscoveredMachines X)\<lparr>State := StartedState X\<rparr>;
          (err, w2) = storage_Update (storage this) latest w1
      in (case RETRY X this latest err w2 of
            None \<Rightarrow> None
          | Some w3 \<Rightarrow> Some (None, emit Logger_Sync w3)))"

text \<open>
  The last two statements of both event handlers, up to the notify call: seed the random
  source from the clock, draw an index below the pool size, index the pool.
\<close>

definition pick_executor ::
  "Externals \<Rightarrow> 'st Handler \<Rightarrow> 'st world \<Rightarrow> (panic + Executor) \<times> 'st world" where
  "pick_executor X this w =
     (let (t, w1) = time_Now w;
          w2 = emit (rand_Seed (Unix t)) w1
      in (case Intn (rand_src X) (Unix t) (int (length (executor this))) of
            Inl p \<Rightarrow> (Inl p, w2)
          | Inr i \<Rightarrow> (index (executor this) i, w2)))"

definition refreshMachineSnapshotOnEvent ::
  "Externals \<Rightarrow> 'st Handler \<Rightarrow> WatchEvent \<Rightarrow> 'st world \<Rightarrow> panic option \<times> 'st world" where
  "refreshMachineSnapshotOnEvent X this event w =
     (let w1 = emit (Logger_Info ''Notifying executor to refresh machine information'') w;
          (err, digest) = Unmarshal (json_Unmarshal X) event (NewMachineDigest X)
      in (case err of
            Some e \<Rightarrow> (None, emit Logger_Sync (emit (Logger_Error e) w1))
          | None \<Rightarrow>
              (case pick_executor X this w1 of
                 (Inl p, w2) \<Rightarrow> (Some p, emit Logger_Sync w2)
               | (Inr ex, w2) \<Rightarrow> (None, emit Logger_Sync (emit (NotifyDigest ex digest) w2)))))"

definition refreshDicoveredMachinesOnEvent ::
  "Externals \<Rightarrow> 'st Handler \<Rightarrow> WatchEvent \<Rightarrow> 'st world \<Rightarrow> panic option \<times> 'st world" where
  "refreshDicoveredMachinesOnEvent X this event w =
     (let w1 = emit (Logger_Info ''Notifying executor to refresh machine information'') w;
          (err, latest) = Unmarshal (json_Unmarshal X) event (NewDiscoveredMachines X)
      in (case err of
            Some e \<Rightarrow> (None, emit Logger_Sync (emit (Logger_Error e) w1))
          | None \<Rightarrow>
              (case pick_executor X this w1 of
                 (Inl p, w2) \<Rightarrow> (Some p, emit Logger_Sync w2)
               | (Inr ex, w2) \<Rightarrow>
                   (None, emit Logger_Sync (emit (NotifyDiscoveredMachines ex latest) w2)))))"

section \<open>The scheduler server (server.go)\<close>

record 'st Server =
  closeCh :: chan
  clzSubCh :: "chan list"
  sche :: Schedule
  machineObserver :: "Watcher option"
  digestObserver :: "Watcher option"
  autoDiscObserver :: "Watcher option"
  storage :: "'st Storage option"
  Handler :: "'st Handler option"

text \<open>
  \<^verbatim>\<open>NewServer\<close> parses the expression and, if that succeeds, makes the stop channel; every
  other field has its zero value (nil).
\<close>

definition NewServer :: "Externals \<Rightarrow> string \<Rightarrow> 'st world \<Rightarrow> (error + 'st Server) \<times> 'st world" where
  "NewServer X exp w =
     (case cron_Parse X exp of
        Inl err \<Rightarrow> (Inl err, w)
      | Inr s \<Rightarrow>
          (case make_chan w of
             (c, w') \<Rightarrow>
               (Inr \<lparr>closeCh = c, clzSubCh = [], sche = s, machineObserver = None,
                     digestObserver = None, autoDiscObserver = None, storage = None,
                     Handler = None\<rparr>, w')))"

definition Prepare :: "'st Storage \<Rightarrow> 'st Server \<Rightarrow> 'st Server" where
  "Prepare sto this = this\<lparr>storage := Some sto, Handler := Some (NewHandler sto)\<rparr>"

definition Subscribe :: "'st Server \<Rightarrow> 'st world \<Rightarrow> chan \<times> 'st Server \<times> 'st world" where
  "Subscribe this w =
     (case make_chan w of
        (subscription, w') \<Rightarrow> (subscription, this\<lparr>clzSubCh := clzSubCh this @ [subscription]\<rparr>, w'))"

definition Stop :: "'st Server \<Rightarrow> 'st world \<Rightarrow> panic + 'st world" where
  "Stop this w = close (closeCh this) w"

subsection \<open>The main loop\<close>

text \<open>
  One iteration of \<^verbatim>\<open>for { select { ... } }\<close> takes the case that \<^verbatim>\<open>select\<close> chose, with the
  event received if the case receives one. The history of a run is the list of these cases.
\<close>

datatype select_case =
    recv_closeCh
  | recv_machineEventChan WatchEvent
  | recv_digestEventChan WatchEvent
  | recv_autoDiscEventChan WatchEvent
  | recv_timer_C

datatype flow = continue | break_LOOP

definition select_body ::
  "'st Server \<Rightarrow> select_case \<Rightarrow> bool \<Rightarrow> 'st world \<Rightarrow> flow \<times> bool \<times> 'st world" where
  "select_body this c revalidate w =
     (case c of
        recv_closeCh \<Rightarrow> (break_LOOP, revalidate, w)
      | recv_machineEventChan event \<Rightarrow>
          if Type event = DELETE then (continue, revalidate, w)
          else if Type event = ERROR then (break_LOOP, revalidate, w)
          else (continue, revalidate, w)
      | recv_digestEventChan event \<Rightarrow>
          if Type event = CREATE
          then (continue, revalidate, emit (Go (Task_refreshMachineSnapshotOnEvent event)) w)
          else if Type event = ERROR then (break_LOOP, revalidate, w)
          else (continue, revalidate, w)
      | recv_autoDiscEventChan event \<Rightarrow>
          if Type event = CREATE \<or> Type event = UPDATE
          then (continue, revalidate, emit (Go (Task_refreshDicoveredMachinesOnEvent event)) w)
          else (continue, revalidate, w)
      | recv_timer_C \<Rightarrow>
          (case time_Now w of
             (t, w1) \<Rightarrow>
               (case (if IsZero (sche this t)
                      then (True, emit (Timer_Reset Minute) w1)
                      else (case time_Now w1 of
                              (u, w2) \<Rightarrow> (False, emit (Timer_Reset (Sub (sche this t) u)) w2))) of
                  (revalidate', w3) \<Rightarrow>
                    if \<not> revalidate'
                    then (continue, revalidate',
                            emit (Go Task_autoDiscoveryOnTime)
                              (emit (Go Task_createMachineDigestOnTime) w3))
                    else (continue, revalidate', w3))))"

text \<open>
  The loop over a history: \<open>Broke\<close> when an iteration executed \<^verbatim>\<open>break LOOP\<close> (the rest of
  the history is never looked at), \<open>Waiting\<close> when the history is used up and the loop sits
  in \<^verbatim>\<open>select\<close>.
\<close>

datatype 'st loop_end = Waiting bool "'st world" | Broke bool "'st world"

fun LOOP :: "'st Server \<Rightarrow> bool \<Rightarrow> 'st world \<Rightarrow> select_case list \<Rightarrow> 'st loop_end" where
  "LOOP this revalidate w [] = Waiting revalidate w"
| "LOOP this revalidate w (c # cs) =
     (case select_body this c revalidate w of
        (break_LOOP, revalidate', w') \<Rightarrow> Broke revalidate' w'
      | (continue, revalidate', w') \<Rightarrow> LOOP this revalidate' w' cs)"

subsection \<open>Serve\<close>

text \<open>Calling \<^verbatim>\<open>Close()\<close> on an observer field; a nil interface value panics.\<close>

definition Close :: "Watcher option \<Rightarrow> 'st world \<Rightarrow> panic option \<times> 'st world" where
  "Close observer w =
     (case observer of
        None \<Rightarrow> (Some nil_pointer_dereference, w)
      | Some x \<Rightarrow> (None, emit (Watcher_Close x) w))"

datatype outcome = returns "error option" | panics panic | blocks

text \<open>The statements after the loop: lines 125 to 128.\<close>

definition after_LOOP :: "'st Server \<Rightarrow> 'st world \<Rightarrow> outcome \<times> 'st world" where
  "after_LOOP this w =
     (case Close (machineObserver this) (emit Timer_Stop w) of
        (Some p, w1) \<Rightarrow> (panics p, w1)
      | (None, w1) \<Rightarrow>
          (case Close (digestObserver this) w1 of
             (Some p, w2) \<Rightarrow> (panics p, w2)
           | (None, w2) \<Rightarrow> (returns None, w2)))"

text \<open>
  The initial timer, lines 76 to 85: ask the schedule for the next activation; a zero instant
  sets \<^verbatim>\<open>revalidate\<close> and arms one minute, any other instant arms the time left until it.
\<close>

definition initial_timer :: "'st Server \<Rightarrow> 'st world \<Rightarrow> bool \<times> 'st world" where
  "initial_timer this w =
     (case time_Now w of
        (t, w1) \<Rightarrow>
          if IsZero (sche this t)
          then (True, emit (time_NewTimer Minute) w1)
          else (case time_Now w1 of
                  (u, w2) \<Rightarrow> (False, emit (time_NewTimer (Sub (sche this t) u)) w2)))"

text \<open>From the event channels to the return: lines 73 to 128.\<close>

definition run :: "'st Server \<Rightarrow> 'st world \<Rightarrow> select_case list \<Rightarrow> outcome \<times> 'st world" where
  "run this w events =
     (case (machineObserver this, digestObserver this, autoDiscObserver this) of
        (Some mo, Some dg, Some ad) \<Rightarrow>
          (case initial_timer this
                  (emit (Watcher_Output ad) (emit (Watcher_Output dg) (emit (Watcher_Output mo) w))) of
             (revalidate, w1) \<Rightarrow>
               (case LOOP this revalidate w1 events of
                  Waiting _ w2 \<Rightarrow> (blocks, w2)
                | Broke _ w2 \<Rightarrow> after_LOOP this w2))
      | _ \<Rightarrow> (panics nil_pointer_dereference, w))"

text \<open>
  Opening the three watches, lines 61 to 72: \<open>Inl\<close> when \<^verbatim>\<open>Serve\<close> ends here (a failed
  \<^verbatim>\<open>Watch\<close> returns its error; a nil storage panics), \<open>Inr\<close> with all three observers set
  otherwise.
\<close>

definition establish ::
  "Externals \<Rightarrow> 'st Server \<Rightarrow> 'st world \<Rightarrow>
     (outcome \<times> 'st Server \<times> 'st world) + ('st Server \<times> 'st world)" where
  "establish X this w =
     (case storage this of
        None \<Rightarrow> Inl (panics nil_pointer_dereference, this, w)
      | Some sto \<Rightarrow>
          (case storage_Watch sto (NewMachine X) WatchOnKind w of
             (Inl err, w1) \<Rightarrow> Inl (returns (Some err), this\<lparr>machineObserver := None\<rparr>, w1)
           | (Inr mo, w1) \<Rightarrow>
               (case storage_Watch sto (NewMachineDigest X) WatchOnKind w1 of
                  (Inl err, w2) \<Rightarrow>
                    Inl (returns (Some err),
                         this\<lparr>machineObserver := Some mo, digestObserver := None\<rparr>, w2)
                | (Inr dg, w2) \<Rightarrow>
                    (case storage_Watch sto (NewDiscoveredMachines X) WatchOnName w2 of
                       (Inl err, w3) \<Rightarrow>
                         Inl (returns (Some err),
                              this\<lparr>machineObserver := Some mo, digestObserver := Some dg,
                                   autoDiscObserver := None\<rparr>, w3)
                     | (Inr ad, w3) \<Rightarrow>
                         Inr (this\<lparr>machineObserver := Some mo, digestObserver := Some dg,
                                   autoDiscObserver := Some ad\<rparr>, w3)))))"

text \<open>The body of \<^verbatim>\<open>Serve\<close> without its deferred function.\<close>

definition Serve_body ::
  "Externals \<Rightarrow> 'st Server \<Rightarrow> 'st world \<Rightarrow> select_case list \<Rightarrow> outcome \<times> 'st Server \<times> 'st world" where
  "Serve_body X this w events =
     (case establish X this w of
        Inl r \<Rightarrow> r
      | Inr (this', w') \<Rightarrow> (case run this' w' events of (out, w'') \<Rightarrow> (out, this', w'')))"

text \<open>
  The deferred function of \<^verbatim>\<open>Serve\<close>: close every channel of \<^verbatim>\<open>clzSubCh\<close> in index order,
  then truncate the slice. A panic in a \<^verbatim>\<open>close\<close> leaves the rest undone.
\<close>

fun close_each :: "chan list \<Rightarrow> 'st world \<Rightarrow> panic option \<times> 'st world" where
  "close_each [] w = (None, w)"
| "close_each (c # cs) w =
     (case close c w of
        Inl p \<Rightarrow> (Some p, w)
      | Inr w' \<Rightarrow> close_each cs w')"

definition deferred :: "'st Server \<Rightarrow> 'st world \<Rightarrow> panic option \<times> 'st Server \<times> 'st world" where
  "deferred this w =
     (case close_each (clzSubCh this) w of
        (Some p, w') \<Rightarrow> (Some p, this, w')
      | (None, w') \<Rightarrow> (None, this\<lparr>clzSubCh := []\<rparr>, w'))"

text \<open>
  \<^verbatim>\<open>Serve\<close>: the body, then (when the body returned or panicked) the deferred function.
  On a history that leaves the loop waiting, \<^verbatim>\<open>Serve\<close> has not returned and nothing
  deferred has run.
\<close>

definition Serve ::
  "Externals \<Rightarrow> 'st Server \<Rightarrow> 'st world \<Rightarrow> select_case list \<Rightarrow> outcome \<times> 'st Server \<times> 'st world" where
  "Serve X this w events =
     (case Serve_body X this w events of
        (blocks, this', w') \<Rightarrow> (blocks, this', w')
      | (out, this', w') \<Rightarrow>
          (case deferred this' w' of
             (Some p, this'', w'') \<Rightarrow> (panics p, this'', w'')
           | (None, this'', w'') \<Rightarrow> (out, this'', w'')))"

section \<open>Observing a run\<close>

text \<open>What a run appended to the trace: the trace of the world after, without the trace before.\<close>

definition since :: "'st world \<Rightarrow> 'st world \<Rightarrow> effect list" where
  "since w w' = drop (length (trace w)) (trace w')"

text \<open>The calls that reached an executor, in order, with the object handed over.\<close>

fun NotifyDigest_calls :: "effect list \<Rightarrow> (Executor \<times> Object) list" where
  "NotifyDigest_calls [] = []"
| "NotifyDigest_calls (NotifyDigest ex obj # es) = (ex, obj) # NotifyDigest_calls es"
| "NotifyDigest_calls (_ # es) = NotifyDigest_calls es"

fun NotifyDiscoveredMachines_calls :: "effect list \<Rightarrow> (Executor \<times> Object) list" where
  "NotifyDiscoveredMachines_calls [] = []"
| "NotifyDiscoveredMachines_calls (NotifyDiscoveredMachines ex obj # es) =
     (ex, obj) # NotifyDiscoveredMachines_calls es"
| "NotifyDiscoveredMachines_calls (_ # es) = NotifyDiscoveredMachines_calls es"

text \<open>The world after \<^verbatim>\<open>rand.Seed(time.Now().Unix())\<close>.\<close>

definition seeded :: "'st world \<Rightarrow> 'st world" where
  "seeded w = emit (rand_Seed (Unix (now_at w (reads w)))) (w\<lparr>reads := Suc (reads w)\<rparr>)"

text \<open>The world a loop result carries.\<close>

definition world_of :: "'st loop_end \<Rightarrow> 'st world" where
  "world_of r = (case r of Waiting _ w \<Rightarrow> w | Broke _ w \<Rightarrow> w)"

text \<open>The goroutines started, the timer rearmings, the channels and the watchers closed, in order.\<close>

fun Go_calls :: "effect list \<Rightarrow> task list" where
  "Go_calls [] = []"
| "Go_calls (Go t # es) = t # Go_calls es"
| "Go_calls (_ # es) = Go_calls es"

fun periodic :: "effect \<Rightarrow> bool" where
  "periodic (Go Task_createMachineDigestOnTime) = True"
| "periodic (Go Task_autoDiscoveryOnTime) = True"
| "periodic _ = False"

fun Timer_Reset_calls :: "effect list \<Rightarrow> Duration list" where
  "Timer_Reset_calls [] = []"
| "Timer_Reset_calls (Timer_Reset d # es) = d # Timer_Reset_calls es"
| "Timer_Reset_calls (_ # es) = Timer_Reset_calls es"

fun close_chan_calls :: "effect list \<Rightarrow> chan list" where
  "close_chan_calls [] = []"
| "close_chan_calls (close_chan c # es) = c # close_chan_calls es"
| "close_chan_calls (_ # es) = close_chan_calls es"

fun Watcher_Close_calls :: "effect list \<Rightarrow> Watcher list" where
  "Watcher_Close_calls [] = []"
| "Watcher_Close_calls (Watcher_Close x # es) = x # Watcher_Close_calls es"
| "Watcher_Close_calls (_ # es) = Watcher_Close_calls es"

text \<open>
  The subscriber registry is sound in a world when its channels are pairwise different, made
  and still open. \<^verbatim>\<open>Subscribe\<close> keeps it so, since \<^verbatim>\<open>make\<close> returns a new channel.
\<close>

definition subs_ok :: "'st Server \<Rightarrow> 'st world \<Rightarrow> bool" where
  "subs_ok this w =
     (distinct (clzSubCh this) \<and> list_all (\<lambda>c. c < length (chans w) \<and> \<not> chans w ! c) (clzSubCh this))"

text \<open>
  A step that closes no channel: the channels are as before and the trace grew by effects
  other than \<open>close_chan\<close>.
\<close>

definition no_close :: "'st world \<Rightarrow> 'st world \<Rightarrow> bool" where
  "no_close w w' =
     (chans w' = chans w \<and> take (length (trace w)) (trace w') = trace w
      \<and> close_chan_calls (since w w') = [])"

text \<open>\<open>n\<close> calls of \<^verbatim>\<open>Subscribe\<close> in a row, with the handles they return, in order.\<close>

fun Subscribes :: "nat \<Rightarrow> 'st Server \<Rightarrow> 'st world \<Rightarrow> chan list \<times> 'st Server \<times> 'st world" where
  "Subscribes 0 this w = ([], this, w)"
| "Subscribes (Suc n) this w =
     (case Subscribe this w of
        (c, this1, w1) \<Rightarrow>
          (case Subscribes n this1 w1 of (cs, this2, w2) \<Rightarrow> (c # cs, this2, w2)))"

text \<open>
  The discovery upsert, seen from the store. \<open>latest_Started\<close> is the object it writes.
  \<open>attempt sto latest k r\<close> is the result (error or nil, and store) of \<open>k\<close> further calls of
  \<^verbatim>\<open>Create\<close> after a call that gave \<open>r\<close>; a result is settled when it is a success or an
  error classified internal.
\<close>

definition latest_Started :: "Externals \<Rightarrow> Object" where
  "latest_Started X = (NewDiscoveredMachines X)\<lparr>State := StartedState X\<rparr>"

fun attempt :: "'st Storage \<Rightarrow> Object \<Rightarrow> nat \<Rightarrow> error option \<times> 'st \<Rightarrow> error option \<times> 'st" where
  "attempt sto latest 0 r = r"
| "attempt sto latest (Suc k) r = attempt sto latest k (Create sto latest (snd r))"

definition settled :: "Externals \<Rightarrow> error option \<Rightarrow> bool" where
  "settled X err = (case err of None \<Rightarrow> True | Some e \<Rightarrow> IsInternalError X e)"

section \<open>A concrete environment\<close>

text \<open>
  One environment to run the model on: a decoder that rejects the empty payload and otherwise
  fills in the identifier \<open>m1\<close>; a store that counts its calls, where \<^verbatim>\<open>Update\<close> fails with
  a non-internal error, \<^verbatim>\<open>Create\<close> succeeds from the third call on and the \<open>k\<close>-th call fails
  if it is a \<^verbatim>\<open>Watch\<close>; a clock that advances by one at every reading.
\<close>

definition example_Object :: Object where
  "example_Object =
     \<lparr>GetGUID = [], GetKind = [], GetName = [], GetNamespace = [], GetCreationTimestamp = 0,
      GetUpdatingTimestamp = None, IsDeleting = False, State = []\<rparr>"

definition example_json :: json_decoder where
  "example_json payload cv =
     (if payload = [] then (Some (Error ''unexpected end of JSON input''), cv)
      else (None, cv\<lparr>GetGUID := ''m1''\<rparr>))"

definition example_X :: Externals where
  "example_X =
     \<lparr>NewMachine = example_Object\<lparr>GetKind := ''machine''\<rparr>,
      NewMachineDigest = example_Object\<lparr>GetKind := ''digest''\<rparr>,
      NewDiscoveredMachines = example_Object\<lparr>GetKind := ''discovered''\<rparr>,
      StartedState = ''Started'',
      IsInternalError = (\<lambda>e. e = Error ''internal''),
      json_Unmarshal = example_json,
      rand_src = (\<lambda>seed n. nat \<bar>seed\<bar>),
      cron_Parse = (\<lambda>exp. if exp = [] then Inl (Error ''empty spec'') else Inr (\<lambda>t. t + 5))\<rparr>"

definition example_Storage :: "nat \<Rightarrow> nat Storage" where
  "example_Storage k =
     \<lparr>Create = (\<lambda>obj n. (if n < 2 then Some (Error ''conflict'') else None, Suc n)),
      Update = (\<lambda>obj n. (Some (Error ''not found''), Suc n)),
      Watch = (\<lambda>obj m n. (if n = k then Inl (Error ''watch failed'') else Inr n, Suc n))\<rparr>"

definition example_world :: "nat world" where
  "example_world = \<lparr>store = 0, trace = [], now_at = (\<lambda>k. 100 + int k), reads = 0, chans = [False]\<rparr>"

definition example_event :: "WatchEventType \<Rightarrow> 8 word list \<Rightarrow> WatchEvent" where
  "example_event ty payload = \<lparr>Type = ty, Kind = ''digest'', Key = ''/digest/m1'', Value = payload\<rparr>"

definition example_Handler :: "nat Handler" where
  "example_Handler = RegisterExecutor 7 (NewHandler (example_Storage 9))"

definition example_Server :: "nat \<Rightarrow> Schedule \<Rightarrow> nat Server" where
  "example_Server k s =
     Prepare (example_Storage k)
       \<lparr>closeCh = 0, clzSubCh = [], sche = s, machineObserver = None, digestObserver = None,
        autoDiscObserver = None, storage = None, Handler = None\<rparr>"

text \<open>A store where \<^verbatim>\<open>Create\<close> never succeeds and never fails with an internal error.\<close>

definition busy_Storage :: "nat Storage" where
  "busy_Storage =
     \<lparr>Create = (\<lambda>obj n. (Some (Error ''conflict''), Suc n)),
      Update = (\<lambda>obj n. (Some (Error ''not found''), Suc n)),
      Watch = (\<lambda>obj m n. (Inr n, Suc n))\<rparr>"

section \<open>Properties of the event handlers\<close>

lemmas example_defs = example_Object_def example_json_def example_X_def example_Storage_def
  example_world_def example_event_def

lemma trace_emit [simp]: "trace (emit e w) = trace w @ [e]"
  by (simp add: emit_def)

lemma since_append [simp]: "trace w' = trace w @ es \<Longrightarrow> since w w' = es"
  by (simp add: since_def)

lemma Intn_in_range:
  "xs \<noteq> [] \<Longrightarrow> \<exists>i. Intn src seed (int (length xs)) = Inr i \<and> 0 \<le> i \<and> i < int (length xs)"
  by (simp add: Intn_def)

lemma pick_executor_empty:
  "executor h = [] \<Longrightarrow>
   pick_executor X h w = (Inl invalid_argument_to_Intn, emit (rand_Seed (Unix (now_at w (reads w)))) (w\<lparr>reads := Suc (reads w)\<rparr>))"
  by (simp add: pick_executor_def time_Now_def Intn_def)

lemma pick_executor_nonempty:
  "executor h \<noteq> [] \<Longrightarrow>
   \<exists>i < length (executor h). pick_executor X h w = (Inr (executor h ! i), emit (rand_Seed (Unix (now_at w (reads w)))) (w\<lparr>reads := Suc (reads w)\<rparr>))"
  apply (simp add: pick_executor_def time_Now_def Intn_def index_def)
  apply (rule exI[of _ "nat (int (rand_src X (Unix (now_at w (reads w))) (int (length (executor h)))) mod int (length (executor h)))"])
  apply (simp flip: zmod_int)
  done

lemma pick_executor_empty':
  "executor h = [] \<Longrightarrow> pick_executor X h w = (Inl invalid_argument_to_Intn, seeded w)"
  by (simp add: pick_executor_empty seeded_def)

lemma pick_executor_nonempty':
  "executor h \<noteq> [] \<Longrightarrow> \<exists>i < length (executor h). pick_executor X h w = (Inr (executor h ! i), seeded w)"
  using pick_executor_nonempty[of h X w] by (simp add: seeded_def)

lemma trace_seeded [simp]: "trace (seeded w) = trace w @ [rand_Seed (Unix (now_at w (reads w)))]"
  by (simp add: seeded_def emit_def)

lemma refreshMachineSnapshotOnEvent_undecodable:
  assumes "Unmarshal (json_Unmarshal X) event (NewMachineDigest X) = (Some e, obj)"
  shows "refreshMachineSnapshotOnEvent X h event w =
           (None, emit Logger_Sync (emit (Logger_Error e)
              (emit (Logger_Info ''Notifying executor to refresh machine information'') w)))"
  using assms by (simp add: refreshMachineSnapshotOnEvent_def)

lemma refreshMachineSnapshotOnEvent_no_executor:
  assumes "Unmarshal (json_Unmarshal X) event (NewMachineDigest X) = (None, obj)"
    and "executor h = []"
  shows "refreshMachineSnapshotOnEvent X h event w =
           (Some invalid_argument_to_Intn, emit Logger_Sync (seeded
              (emit (Logger_Info ''Notifying executor to refresh machine information'') w)))"
  using assms by (simp add: refreshMachineSnapshotOnEvent_def pick_executor_empty')

lemma refreshMachineSnapshotOnEvent_notifies:
  assumes "Unmarshal (json_Unmarshal X) event (NewMachineDigest X) = (None, obj)"
    and "executor h \<noteq> []"
  shows "\<exists>i < length (executor h). refreshMachineSnapshotOnEvent X h event w =
           (None, emit Logger_Sync (emit (NotifyDigest (executor h ! i) obj) (seeded
              (emit (Logger_Info ''Notifying executor to refresh machine information'') w))))"
proof -
  obtain i where "i < length (executor h)"
    and "pick_executor X h (emit (Logger_Info ''Notifying executor to refresh machine information'') w) =
           (Inr (executor h ! i), seeded (emit (Logger_Info ''Notifying executor to refresh machine information'') w))"
    using pick_executor_nonempty'[OF assms(2)] by blast
  with assms(1) show ?thesis
    by (auto simp: refreshMachineSnapshotOnEvent_def)
qed

lemma refreshDicoveredMachinesOnEvent_undecodable:
  assumes "Unmarshal (json_Unmarshal X) event (NewDiscoveredMachines X) = (Some e, obj)"
  shows "refreshDicoveredMachinesOnEvent X h event w =
           (None, emit Logger_Sync (emit (Logger_Error e)
              (emit (Logger_Info ''Notifying executor to refresh machine information'') w)))"
  using assms by (simp add: refreshDicoveredMachinesOnEvent_def)

lemma refreshDicoveredMachinesOnEvent_no_executor:
  assumes "Unmarshal (json_Unmarshal X) event (NewDiscoveredMachines X) = (None, obj)"
    and "executor h = []"
  shows "refreshDicoveredMachinesOnEvent X h event w =
           (Some invalid_argument_to_Intn, emit Logger_Sync (seeded
              (emit (Logger_Info ''Notifying executor to refresh machine information'') w)))"
  using assms by (simp add: refreshDicoveredMachinesOnEvent_def pick_executor_empty')

lemma refreshDicoveredMachinesOnEvent_notifies:
  assumes "Unmarshal (json_Unmarshal X) event (NewDiscoveredMachines X) = (None, obj)"
    and "executor h \<noteq> []"
  shows "\<exists>i < length (executor h). refreshDicoveredMachinesOnEvent X h event w =
           (None, emit Logger_Sync (emit (NotifyDiscoveredMachines (executor h ! i) obj) (seeded
              (emit (Logger_Info ''Notifying executor to refresh machine information'') w))))"
proof -
  obtain i where "i < length (executor h)"
    and "pick_executor X h (emit (Logger_Info ''Notifying executor to refresh machine information'') w) =
           (Inr (executor h ! i), seeded (emit (Logger_Info ''Notifying executor to refresh machine information'') w))"
    using pick_executor_nonempty'[OF assms(2)] by blast
  with assms(1) show ?thesis
    by (auto simp: refreshDicoveredMachinesOnEvent_def)
qed

text \<open>
  Claim C10. The index \<^verbatim>\<open>rand.Intn(len(in.executor))\<close> is inside the executor slice when at
  least one executor is registered, and with an empty pool \<^verbatim>\<open>Intn\<close> panics. So, for an
  event whose payload decodes, either handler panics exactly when the pool is empty, and it
  reaches an executor (once) exactly when the pool is not empty.
\<close>

theorem C10_dispatch_needs_registered_executor:
  "(executor h \<noteq> [] \<longrightarrow>
      (\<exists>i. Intn (rand_src X) seed (int (length (executor h))) = Inr i \<and> 0 \<le> i \<and>
           i < int (length (executor h)) \<and> index (executor h) i = Inr (executor h ! nat i)))
   \<and> (executor h = [] \<longrightarrow>
        Intn (rand_src X) seed (int (length (executor h))) = Inl invalid_argument_to_Intn)
   \<and> (fst (Unmarshal (json_Unmarshal X) event (NewMachineDigest X)) = None \<longrightarrow>
        fst (refreshMachineSnapshotOnEvent X h event w) =
          (if executor h = [] then Some invalid_argument_to_Intn else None)
        \<and> length (NotifyDigest_calls (since w (snd (refreshMachineSnapshotOnEvent X h event w)))) =
          (if executor h = [] then 0 else 1))
   \<and> (fst (Unmarshal (json_Unmarshal X) event (NewDiscoveredMachines X)) = None \<longrightarrow>
        fst (refreshDicoveredMachinesOnEvent X h event w) =
          (if executor h = [] then Some invalid_argument_to_Intn else None)
        \<and> length (NotifyDiscoveredMachines_calls
                    (since w (snd (refreshDicoveredMachinesOnEvent X h event w)))) =
          (if executor h = [] then 0 else 1))"
proof (intro conjI impI)
  assume ne: "executor h \<noteq> []"
  show "\<exists>i. Intn (rand_src X) seed (int (length (executor h))) = Inr i \<and> 0 \<le> i \<and>
           i < int (length (executor h)) \<and> index (executor h) i = Inr (executor h ! nat i)"
    using ne by (simp add: Intn_def index_def)
next
  assume "executor h = []"
  then show "Intn (rand_src X) seed (int (length (executor h))) = Inl invalid_argument_to_Intn"
    by (simp add: Intn_def)
next
  assume "fst (Unmarshal (json_Unmarshal X) event (NewMachineDigest X)) = None"
  then obtain obj where ok: "Unmarshal (json_Unmarshal X) event (NewMachineDigest X) = (None, obj)"
    by (cases "Unmarshal (json_Unmarshal X) event (NewMachineDigest X)") simp
  show "fst (refreshMachineSnapshotOnEvent X h event w) =
          (if executor h = [] then Some invalid_argument_to_Intn else None)"
    using refreshMachineSnapshotOnEvent_no_executor[OF ok, of h w]
      refreshMachineSnapshotOnEvent_notifies[OF ok, of h w]
    by (cases "executor h = []") auto
  show "length (NotifyDigest_calls (since w (snd (refreshMachineSnapshotOnEvent X h event w)))) =
          (if executor h = [] then 0 else 1)"
    using refreshMachineSnapshotOnEvent_no_executor[OF ok, of h w]
      refreshMachineSnapshotOnEvent_notifies[OF ok, of h w]
    by (cases "executor h = []") auto
next
  assume "fst (Unmarshal (json_Unmarshal X) event (NewDiscoveredMachines X)) = None"
  then obtain obj where ok: "Unmarshal (json_Unmarshal X) event (NewDiscoveredMachines X) = (None, obj)"
    by (cases "Unmarshal (json_Unmarshal X) event (NewDiscoveredMachines X)") simp
  show "fst (refreshDicoveredMachinesOnEvent X h event w) =
          (if executor h = [] then Some invalid_argument_to_Intn else None)"
    using refreshDicoveredMachinesOnEvent_no_executor[OF ok, of h w]
      refreshDicoveredMachinesOnEvent_notifies[OF ok, of h w]
    by (cases "executor h = []") auto
  show "length (NotifyDiscoveredMachines_calls
                    (since w (snd (refreshDicoveredMachinesOnEvent X h event w)))) =
          (if executor h = [] then 0 else 1)"
    using refreshDicoveredMachinesOnEvent_no_executor[OF ok, of h w]
      refreshDicoveredMachinesOnEvent_notifies[OF ok, of h w]
    by (cases "executor h = []") auto
qed

text \<open>Claim C10 on the concrete environment: an empty pool and a pool of one.\<close>

theorem C10_dispatch_needs_registered_executor_witness:
  "fst (refreshMachineSnapshotOnEvent example_X (NewHandler (example_Storage 9))
          (example_event CREATE [1]) example_world) = Some invalid_argument_to_Intn
   \<and> fst (refreshMachineSnapshotOnEvent example_X (RegisterExecutor 7 (NewHandler (example_Storage 9)))
          (example_event CREATE [1]) example_world) = None
   \<and> fst (refreshDicoveredMachinesOnEvent example_X (NewHandler (example_Storage 9))
          (example_event CREATE [1]) example_world) = Some invalid_argument_to_Intn
   \<and> fst (refreshDicoveredMachinesOnEvent example_X (RegisterExecutor 7 (NewHandler (example_Storage 9)))
          (example_event CREATE [1]) example_world) = None"
  using C10_dispatch_needs_registered_executor
          [of "NewHandler (example_Storage 9)" example_X 0 "example_event CREATE [1]" example_world]
        C10_dispatch_needs_registered_executor
          [of "RegisterExecutor 7 (NewHandler (example_Storage 9))" example_X 0
              "example_event CREATE [1]" example_world]
  by (simp add: example_defs NewHandler_def RegisterExecutor_def Unmarshal_def)

text \<open>
  Claim C7 says that every event whose payload decodes reaches exactly one executor. With no
  executor registered it reaches none: the payload decodes (to the identifier \<open>m1\<close>), no
  notify call is made, and the handler panics.
\<close>

theorem C7_every_decoded_event_notifies_counterexample:
  "Unmarshal (json_Unmarshal example_X) (example_event CREATE [1]) (NewMachineDigest example_X)
     = (None, (NewMachineDigest example_X)\<lparr>GetGUID := ''m1''\<rparr>)
   \<and> NotifyDigest_calls
        (since example_world
          (snd (refreshMachineSnapshotOnEvent example_X (NewHandler (example_Storage 9))
                 (example_event CREATE [1]) example_world))) = []
   \<and> fst (refreshMachineSnapshotOnEvent example_X (NewHandler (example_Storage 9))
            (example_event CREATE [1]) example_world) = Some invalid_argument_to_Intn"
proof -
  have ok: "Unmarshal (json_Unmarshal example_X) (example_event CREATE [1]) (NewMachineDigest example_X)
     = (None, (NewMachineDigest example_X)\<lparr>GetGUID := ''m1''\<rparr>)"
    by (simp add: example_defs Unmarshal_def)
  have empty: "executor (NewHandler (example_Storage 9)) = []"
    by (simp add: NewHandler_def)
  show ?thesis
    using ok refreshMachineSnapshotOnEvent_no_executor[OF ok empty, of example_world]
    by (simp add: since_def emit_def)
qed

text \<open>
  Claim C7, amended by the condition that an executor is registered. An event whose payload
  does not decode: the handler logs the decode error and returns, and the trace shows the
  three logger calls only. An event whose payload decodes, with a non-empty pool: the handler
  returns after exactly one notify call of its own kind, to an executor of the pool, carrying
  the decoded object (so an object with identifier \<open>m1\<close> arrives with identifier \<open>m1\<close>), and
  no call of the other kind. And a \<^verbatim>\<open>CREATE\<close> event on the digest stream makes the loop start
  exactly the digest handler on that event.
\<close>

theorem C7_decode_failure_dropped_success_notifies_one:
  "(Unmarshal (json_Unmarshal X) event (NewMachineDigest X) = (Some e, obj) \<longrightarrow>
      fst (refreshMachineSnapshotOnEvent X h event w) = None
      \<and> since w (snd (refreshMachineSnapshotOnEvent X h event w)) =
          [Logger_Info ''Notifying executor to refresh machine information'', Logger_Error e, Logger_Sync])
   \<and> (Unmarshal (json_Unmarshal X) event (NewDiscoveredMachines X) = (Some e, obj) \<longrightarrow>
      fst (refreshDicoveredMachinesOnEvent X h event w) = None
      \<and> since w (snd (refreshDicoveredMachinesOnEvent X h event w)) =
          [Logger_Info ''Notifying executor to refresh machine information'', Logger_Error e, Logger_Sync])
   \<and> (Unmarshal (json_Unmarshal X) event (NewMachineDigest X) = (None, obj) \<and> executor h \<noteq> [] \<longrightarrow>
      fst (refreshMachineSnapshotOnEvent X h event w) = None
      \<and> (\<exists>ex \<in> set (executor h).
            NotifyDigest_calls (since w (snd (refreshMachineSnapshotOnEvent X h event w))) = [(ex, obj)])
      \<and> NotifyDiscoveredMachines_calls (since w (snd (refreshMachineSnapshotOnEvent X h event w))) = [])
   \<and> (Unmarshal (json_Unmarshal X) event (NewDiscoveredMachines X) = (None, obj) \<and> executor h \<noteq> [] \<longrightarrow>
      fst (refreshDicoveredMachinesOnEvent X h event w) = None
      \<and> (\<exists>ex \<in> set (executor h).
            NotifyDiscoveredMachines_calls (since w (snd (refreshDicoveredMachinesOnEvent X h event w)))
              = [(ex, obj)])
      \<and> NotifyDigest_calls (since w (snd (refreshDicoveredMachinesOnEvent X h event w))) = [])
   \<and> (Type event = CREATE \<longrightarrow>
      select_body this (recv_digestEventChan event) revalidate w' =
        (continue, revalidate, emit (Go (Task_refreshMachineSnapshotOnEvent event)) w'))"
proof (intro conjI impI)
  assume a: "Unmarshal (json_Unmarshal X) event (NewMachineDigest X) = (Some e, obj)"
  show "fst (refreshMachineSnapshotOnEvent X h event w) = None"
    by (simp add: refreshMachineSnapshotOnEvent_undecodable[OF a])
  show "since w (snd (refreshMachineSnapshotOnEvent X h event w)) =
          [Logger_Info ''Notifying executor to refresh machine information'', Logger_Error e, Logger_Sync]"
    by (simp add: refreshMachineSnapshotOnEvent_undecodable[OF a] since_def)
next
  assume a: "Unmarshal (json_Unmarshal X) event (NewDiscoveredMachines X) = (Some e, obj)"
  show "fst (refreshDicoveredMachinesOnEvent X h event w) = None"
    by (simp add: refreshDicoveredMachinesOnEvent_undecodable[OF a])
  show "since w (snd (refreshDicoveredMachinesOnEvent X h event w)) =
          [Logger_Info ''Notifying executor to refresh machine information'', Logger_Error e, Logger_Sync]"
    by (simp add: refreshDicoveredMachinesOnEvent_undecodable[OF a] since_def)
next
  assume "Unmarshal (json_Unmarshal X) event (NewMachineDigest X) = (None, obj) \<and> executor h \<noteq> []"
  then obtain i where i: "i < length (executor h)"
    and r: "refreshMachineSnapshotOnEvent X h event w =
           (None, emit Logger_Sync (emit (NotifyDigest (executor h ! i) obj) (seeded
              (emit (Logger_Info ''Notifying executor to refresh machine information'') w))))"
    using refreshMachineSnapshotOnEvent_notifies[of X event obj h w] by blast
  show "fst (refreshMachineSnapshotOnEvent X h event w) = None"
    by (simp add: r)
  have "NotifyDigest_calls (since w (snd (refreshMachineSnapshotOnEvent X h event w))) =
          [(executor h ! i, obj)]"
    by (simp add: r since_def)
  with i show "\<exists>ex \<in> set (executor h).
            NotifyDigest_calls (since w (snd (refreshMachineSnapshotOnEvent X h event w))) = [(ex, obj)]"
    using nth_mem by blast
  show "NotifyDiscoveredMachines_calls (since w (snd (refreshMachineSnapshotOnEvent X h event w))) = []"
    by (simp add: r since_def)
next
  assume "Unmarshal (json_Unmarshal X) event (NewDiscoveredMachines X) = (None, obj) \<and> executor h \<noteq> []"
  then obtain i where i: "i < length (executor h)"
    and r: "refreshDicoveredMachinesOnEvent X h event w =
           (None, emit Logger_Sync (emit (NotifyDiscoveredMachines (executor h ! i) obj) (seeded
              (emit (Logger_Info ''Notifying executor to refresh machine information'') w))))"
    using refreshDicoveredMachinesOnEvent_notifies[of X event obj h w] by blast
  show "fst (refreshDicoveredMachinesOnEvent X h event w) = None"
    by (simp add: r)
  have "NotifyDiscoveredMachines_calls (since w (snd (refreshDicoveredMachinesOnEvent X h event w))) =
          [(executor h ! i, obj)]"
    by (simp add: r since_def)
  with i show "\<exists>ex \<in> set (executor h).
            NotifyDiscoveredMachines_calls (since w (snd (refreshDicoveredMachinesOnEvent X h event w)))
              = [(ex, obj)]"
    using nth_mem by blast
  show "NotifyDigest_calls (since w (snd (refreshDicoveredMachinesOnEvent X h event w))) = []"
    by (simp add: r since_def)
next
  assume "Type event = CREATE"
  then show "select_body this (recv_digestEventChan event) revalidate w' =
        (continue, revalidate, emit (Go (Task_refreshMachineSnapshotOnEvent event)) w')"
    by (simp add: select_body_def)
qed

text \<open>
  Claim C7 on the concrete environment: an empty payload is logged and dropped, a payload
  decoding to \<open>m1\<close> gives one notify call carrying \<open>m1\<close> to the registered executor 7.
\<close>

theorem C7_decode_failure_dropped_success_notifies_one_witness:
  "since example_world
     (snd (refreshMachineSnapshotOnEvent example_X example_Handler (example_event CREATE []) example_world)) =
     [Logger_Info ''Notifying executor to refresh machine information'',
      Logger_Error (Error ''unexpected end of JSON input''), Logger_Sync]
   \<and> NotifyDigest_calls (since example_world
        (snd (refreshMachineSnapshotOnEvent example_X example_Handler (example_event CREATE [1]) example_world))) =
       [(7, (NewMachineDigest example_X)\<lparr>GetGUID := ''m1''\<rparr>)]
   \<and> NotifyDiscoveredMachines_calls (since example_world
        (snd (refreshDicoveredMachinesOnEvent example_X example_Handler (example_event UPDATE [1]) example_world))) =
       [(7, (NewDiscoveredMachines example_X)\<lparr>GetGUID := ''m1''\<rparr>)]
   \<and> since example_world
     (snd (refreshDicoveredMachinesOnEvent example_X example_Handler (example_event UPDATE []) example_world)) =
     [Logger_Info ''Notifying executor to refresh machine information'',
      Logger_Error (Error ''unexpected end of JSON input''), Logger_Sync]
   \<and> select_body (example_Server 9 (\<lambda>t. t + 5)) (recv_digestEventChan (example_event CREATE [1])) False example_world =
        (continue, False, emit (Go (Task_refreshMachineSnapshotOnEvent (example_event CREATE [1]))) example_world)"
proof -
  have pool: "executor example_Handler = [7]"
    by (simp add: example_Handler_def RegisterExecutor_def NewHandler_def)
  have bad1: "Unmarshal (json_Unmarshal example_X) (example_event CREATE []) (NewMachineDigest example_X)
      = (Some (Error ''unexpected end of JSON input''), NewMachineDigest example_X)"
    by (simp add: example_defs Unmarshal_def)
  have bad2: "Unmarshal (json_Unmarshal example_X) (example_event UPDATE []) (NewDiscoveredMachines example_X)
      = (Some (Error ''unexpected end of JSON input''), NewDiscoveredMachines example_X)"
    by (simp add: example_defs Unmarshal_def)
  have ok1: "Unmarshal (json_Unmarshal example_X) (example_event CREATE [1]) (NewMachineDigest example_X)
      = (None, (NewMachineDigest example_X)\<lparr>GetGUID := ''m1''\<rparr>)"
    by (simp add: example_defs Unmarshal_def)
  have ok2: "Unmarshal (json_Unmarshal example_X) (example_event UPDATE [1]) (NewDiscoveredMachines example_X)
      = (None, (NewDiscoveredMachines example_X)\<lparr>GetGUID := ''m1''\<rparr>)"
    by (simp add: example_defs Unmarshal_def)
  have ty: "Type (example_event CREATE [1]) = CREATE"
    by (simp add: example_event_def)
  have c1: "since example_world
     (snd (refreshMachineSnapshotOnEvent example_X example_Handler (example_event CREATE []) example_world)) =
     [Logger_Info ''Notifying executor to refresh machine information'',
      Logger_Error (Error ''unexpected end of JSON input''), Logger_Sync]"
    using C7_decode_failure_dropped_success_notifies_one
     [where X = example_X and event = "example_event CREATE []" and h = example_Handler
        and w = example_world and e = "Error ''unexpected end of JSON input''"
        and obj = "NewMachineDigest example_X"] bad1
    by blast
  have c4: "since example_world
     (snd (refreshDicoveredMachinesOnEvent example_X example_Handler (example_event UPDATE []) example_world)) =
     [Logger_Info ''Notifying executor to refresh machine information'',
      Logger_Error (Error ''unexpected end of JSON input''), Logger_Sync]"
    using C7_decode_failure_dropped_success_notifies_one
     [where X = example_X and event = "example_event UPDATE []" and h = example_Handler
        and w = example_world and e = "Error ''unexpected end of JSON input''"
        and obj = "NewDiscoveredMachines example_X"] bad2
    by blast
  have c2: "NotifyDigest_calls (since example_world
        (snd (refreshMachineSnapshotOnEvent example_X example_Handler (example_event CREATE [1]) example_world))) =
       [(7, (NewMachineDigest example_X)\<lparr>GetGUID := ''m1''\<rparr>)]"
    using C7_decode_failure_dropped_success_notifies_one
     [where X = example_X and event = "example_event CREATE [1]" and h = example_Handler
        and w = example_world and obj = "(NewMachineDigest example_X)\<lparr>GetGUID := ''m1''\<rparr>"] ok1 pool
    by auto
  have c3: "NotifyDiscoveredMachines_calls (since example_world
        (snd (refreshDicoveredMachinesOnEvent example_X example_Handler (example_event UPDATE [1]) example_world))) =
       [(7, (NewDiscoveredMachines example_X)\<lparr>GetGUID := ''m1''\<rparr>)]"
    using C7_decode_failure_dropped_success_notifies_one
     [where X = example_X and event = "example_event UPDATE [1]" and h = example_Handler
        and w = example_world and obj = "(NewDiscoveredMachines example_X)\<lparr>GetGUID := ''m1''\<rparr>"] ok2 pool
    by auto
  have c5: "select_body (example_Server 9 (\<lambda>t. t + 5)) (recv_digestEventChan (example_event CREATE [1])) False example_world =
        (continue, False, emit (Go (Task_refreshMachineSnapshotOnEvent (example_event CREATE [1]))) example_world)"
    using C7_decode_failure_dropped_success_notifies_one
     [where event = "example_event CREATE [1]" and this = "example_Server 9 (\<lambda>t. t + 5)" and revalidate = False
        and w' = example_world] ty
    by blast
  from c1 c2 c3 c4 c5 show ?thesis by blast
qed

section \<open>Properties of the discovery upsert\<close>

lemma RETRY_settles:
  assumes "\<forall>m<n. \<not> settled X (fst (attempt (Handler.storage h) latest m (err, store w)))"
    and "settled X (fst (attempt (Handler.storage h) latest n (err, store w)))"
  shows "RETRY X h latest err w =
     Some (w\<lparr>store := snd (attempt (Handler.storage h) latest n (err, store w)),
             trace := trace w @ replicate n (Storage_Create latest) @
               (case fst (attempt (Handler.storage h) latest n (err, store w)) of
                  None \<Rightarrow> []
                | Some e \<Rightarrow> [Logger_Errorf ''Could not mark auto-discovery as `STARTED` state: %v'' e])\<rparr>)"
  using assms
proof (induction n arbitrary: err w)
  case 0
  then show ?case
    by (cases err) (simp_all add: RETRY.simps settled_def emit_def)
next
  case (Suc n)
  from Suc.prems(1) have "\<not> settled X err" by fastforce
  then obtain e where e: "err = Some e" "\<not> IsInternalError X e"
    by (cases err) (simp_all add: settled_def)
  obtain err' st' where c: "Create (Handler.storage h) latest (store w) = (err', st')"
    by (cases "Create (Handler.storage h) latest (store w)") auto
  let ?w1 = "(emit (Storage_Create latest) w)\<lparr>store := st'\<rparr>"
  have sc: "storage_Create (Handler.storage h) latest w = (err', ?w1)"
    by (simp add: storage_Create_def c)
  have step: "RETRY X h latest err w = RETRY X h latest err' ?w1"
    by (subst RETRY.simps) (simp add: e sc)
  have sh: "\<And>m. attempt (Handler.storage h) latest (Suc m) (err, store w) =
             attempt (Handler.storage h) latest m (err', store ?w1)"
    by (simp add: c)
  have 1: "\<forall>m<n. \<not> settled X (fst (attempt (Handler.storage h) latest m (err', store ?w1)))"
    using Suc.prems(1) sh by (metis Suc_less_eq)
  have 2: "settled X (fst (attempt (Handler.storage h) latest n (err', store ?w1)))"
    using Suc.prems(2) sh by simp
  from Suc.IH[OF 1 2] show ?case
    unfolding step sh by (simp add: emit_def replicate_app_Cons_same)
qed

lemma RETRY_Some_settled:
  assumes S: "RETRY X h latest err w = Some w'"
  shows "\<exists>n. settled X (fst (attempt (Handler.storage h) latest n (err, store w)))"
proof (rule RETRY.raw_induct
    [where P = "\<lambda>X h latest err w y.
                  \<exists>n. settled X (fst (attempt (Handler.storage h) latest n (err, store w)))", OF _ S])
  fix R :: "Externals \<Rightarrow> 'a Handler \<Rightarrow> Object \<Rightarrow> error option \<Rightarrow> 'a world \<Rightarrow> 'a world option"
  fix X h latest err w y
  assume IH: "\<And>X h latest err w y. R X h latest err w = Some y \<Longrightarrow>
      \<exists>n. settled X (fst (attempt (Handler.storage h) latest n (err, store w)))"
  assume body: "(case err of
        None \<Rightarrow> Some w
      | Some e \<Rightarrow>
          if \<not> IsInternalError X e
          then (case storage_Create (Handler.storage h) latest w of (err', w') \<Rightarrow> R X h latest err' w')
          else Some (emit (Logger_Errorf ''Could not mark auto-discovery as `STARTED` state: %v'' e) w))
      = Some y"
  show "\<exists>n. settled X (fst (attempt (Handler.storage h) latest n (err, store w)))"
  proof (cases "settled X err")
    case True
    then have "settled X (fst (attempt (Handler.storage h) latest 0 (err, store w)))" by simp
    then show ?thesis by blast
  next
    case False
    then obtain e where e: "err = Some e" "\<not> IsInternalError X e"
      by (cases err) (simp_all add: settled_def)
    obtain err' st' where c: "Create (Handler.storage h) latest (store w) = (err', st')"
      by (cases "Create (Handler.storage h) latest (store w)") auto
    let ?w1 = "(emit (Storage_Create latest) w)\<lparr>store := st'\<rparr>"
    have sc: "storage_Create (Handler.storage h) latest w = (err', ?w1)"
      by (simp add: storage_Create_def c)
    from body e sc have "R X h latest err' ?w1 = Some y" by simp
    from IH[OF this] obtain n where
      "settled X (fst (attempt (Handler.storage h) latest n (err', store ?w1)))" by blast
    then have "settled X (fst (attempt (Handler.storage h) latest (Suc n) (err, store w)))"
      by (simp add: c)
    then show ?thesis by blast
  qed
qed

lemma RETRY_never_settles:
  assumes "\<forall>n. \<not> settled X (fst (attempt (Handler.storage h) latest n (err, store w)))"
  shows "RETRY X h latest err w = None"
proof (cases "RETRY X h latest err w")
  case None
  then show ?thesis .
next
  case (Some w')
  from RETRY_Some_settled[OF this] assms show ?thesis by blast
qed

lemma autoDiscoveryOnTime_RETRY:
  "autoDiscoveryOnTime X h w =
     (case storage_Update (Handler.storage h) (latest_Started X)
             (emit (Logger_Info ''Auto-discovering new machines on preset zones...'') w) of
        (err, w2) \<Rightarrow>
          (case RETRY X h (latest_Started X) err w2 of
             None \<Rightarrow> None
           | Some w3 \<Rightarrow> Some (None, emit Logger_Sync w3)))"
  by (simp add: autoDiscoveryOnTime_def latest_Started_def Let_def)

text \<open>
  Claim C3. \<^verbatim>\<open>autoDiscoveryOnTime\<close> first calls \<^verbatim>\<open>Update\<close> with the discovered-machines object
  in state \<^verbatim>\<open>StartedState\<close>. As long as the last result is an error not classified internal it
  calls \<^verbatim>\<open>Create\<close> with the same object. If the \<open>n\<close>-th \<^verbatim>\<open>Create\<close> is the first result that is
  a success or an internal error, the handler returns after exactly one \<^verbatim>\<open>Update\<close> and \<open>n\<close>
  calls of \<^verbatim>\<open>Create\<close>, having logged the error if the last result was one (and nothing if it
  was a success). If no result ever is a success or an internal error, the handler never
  returns.
\<close>

theorem C3_discovery_upsert_update_then_create_until_settled:
  "((\<forall>m<n. \<not> settled X (fst (attempt (Handler.storage h) (latest_Started X) m
                               (Update (Handler.storage h) (latest_Started X) (store w)))))
     \<and> settled X (fst (attempt (Handler.storage h) (latest_Started X) n
                               (Update (Handler.storage h) (latest_Started X) (store w))))
     \<longrightarrow> (\<exists>w'. autoDiscoveryOnTime X h w = Some (None, w')
            \<and> store w' = snd (attempt (Handler.storage h) (latest_Started X) n
                                (Update (Handler.storage h) (latest_Started X) (store w)))
            \<and> since w w' =
                [Logger_Info ''Auto-discovering new machines on preset zones...'',
                 Storage_Update (latest_Started X)]
                @ replicate n (Storage_Create (latest_Started X))
                @ (case fst (attempt (Handler.storage h) (latest_Started X) n
                               (Update (Handler.storage h) (latest_Started X) (store w))) of
                     None \<Rightarrow> []
                   | Some e \<Rightarrow> [Logger_Errorf ''Could not mark auto-discovery as `STARTED` state: %v'' e])
                @ [Logger_Sync]))
   \<and> ((\<forall>n. \<not> settled X (fst (attempt (Handler.storage h) (latest_Started X) n
                               (Update (Handler.storage h) (latest_Started X) (store w)))))
     \<longrightarrow> autoDiscoveryOnTime X h w = None)"
proof (intro conjI impI)
  let ?sto = "Handler.storage h" and ?l = "latest_Started X"
  let ?w1 = "emit (Logger_Info ''Auto-discovering new machines on preset zones...'') w"
  obtain err st where u: "Update ?sto ?l (store w) = (err, st)"
    by (cases "Update ?sto ?l (store w)") auto
  let ?w2 = "(emit (Storage_Update ?l) ?w1)\<lparr>store := st\<rparr>"
  have su: "storage_Update ?sto ?l ?w1 = (err, ?w2)"
    by (simp add: storage_Update_def emit_def u)
  have st2: "(err, store ?w2) = Update ?sto ?l (store w)" by (simp add: u)
  {
    assume "(\<forall>m<n. \<not> settled X (fst (attempt ?sto ?l m (Update ?sto ?l (store w)))))
       \<and> settled X (fst (attempt ?sto ?l n (Update ?sto ?l (store w))))"
    then have a: "\<forall>m<n. \<not> settled X (fst (attempt ?sto ?l m (err, store ?w2)))"
      and b: "settled X (fst (attempt ?sto ?l n (err, store ?w2)))"
      by (simp_all add: u emit_def)
    let ?tail = "(case fst (attempt ?sto ?l n (err, store ?w2)) of
                  None \<Rightarrow> []
                | Some e \<Rightarrow> [Logger_Errorf ''Could not mark auto-discovery as `STARTED` state: %v'' e])"
    let ?w3 = "?w2\<lparr>store := snd (attempt ?sto ?l n (err, store ?w2)),
             trace := trace ?w2 @ replicate n (Storage_Create ?l) @ ?tail\<rparr>"
    have r: "RETRY X h ?l err ?w2 = Some ?w3"
      by (rule RETRY_settles[OF a b])
    have res: "autoDiscoveryOnTime X h w = Some (None, emit Logger_Sync ?w3)"
      by (simp only: autoDiscoveryOnTime_RETRY su r prod.case option.case)
    have "store (emit Logger_Sync ?w3) = snd (attempt ?sto ?l n (Update ?sto ?l (store w)))"
      by (simp add: emit_def u)
    moreover have "since w (emit Logger_Sync ?w3) =
                [Logger_Info ''Auto-discovering new machines on preset zones...'', Storage_Update ?l]
                @ replicate n (Storage_Create ?l)
                @ (case fst (attempt ?sto ?l n (Update ?sto ?l (store w))) of
                     None \<Rightarrow> []
                   | Some e \<Rightarrow> [Logger_Errorf ''Could not mark auto-discovery as `STARTED` state: %v'' e])
                @ [Logger_Sync]"
      by (simp add: since_def emit_def u)
    ultimately show "\<exists>w'. autoDiscoveryOnTime X h w = Some (None, w')
            \<and> store w' = snd (attempt ?sto ?l n (Update ?sto ?l (store w)))
            \<and> since w w' =
                [Logger_Info ''Auto-discovering new machines on preset zones...'', Storage_Update ?l]
                @ replicate n (Storage_Create ?l)
                @ (case fst (attempt ?sto ?l n (Update ?sto ?l (store w))) of
                     None \<Rightarrow> []
                   | Some e \<Rightarrow> [Logger_Errorf ''Could not mark auto-discovery as `STARTED` state: %v'' e])
                @ [Logger_Sync]"
      using res by blast
  }
  {
    assume "\<forall>n. \<not> settled X (fst (attempt ?sto ?l n (Update ?sto ?l (store w))))"
    then have "\<forall>n. \<not> settled X (fst (attempt ?sto ?l n (err, store ?w2)))"
      by (simp add: u emit_def)
    from RETRY_never_settles[OF this]
    show "autoDiscoveryOnTime X h w = None"
      by (simp only: autoDiscoveryOnTime_RETRY su prod.case option.case)
  }
qed

lemma attempt_busy_Storage:
  "e \<noteq> Error ''internal'' \<Longrightarrow>
   \<exists>e' st'. attempt busy_Storage l n (Some e, st) = (Some e', st') \<and> e' \<noteq> Error ''internal''"
  by (induction n arbitrary: e st) (simp_all add: busy_Storage_def)

text \<open>
  Claim C3 on the concrete environment: \<^verbatim>\<open>Update\<close> fails, the first \<^verbatim>\<open>Create\<close> fails, the second
  succeeds; and on the store where \<^verbatim>\<open>Create\<close> always fails the handler does not return.
\<close>

theorem C3_discovery_upsert_update_then_create_until_settled_witness:
  "(\<exists>w'. autoDiscoveryOnTime example_X (NewHandler (example_Storage 9)) example_world = Some (None, w')
      \<and> store w' = 3
      \<and> since example_world w' =
          [Logger_Info ''Auto-discovering new machines on preset zones...'',
           Storage_Update (latest_Started example_X),
           Storage_Create (latest_Started example_X),
           Storage_Create (latest_Started example_X),
           Logger_Sync])
   \<and> autoDiscoveryOnTime example_X (NewHandler busy_Storage) example_world = None"
proof -
  let ?h = "NewHandler (example_Storage 9)" and ?l = "latest_Started example_X"
  have sto: "Handler.storage ?h = example_Storage 9" by (simp add: NewHandler_def)
  have a0: "attempt (example_Storage 9) ?l 0 (Update (example_Storage 9) ?l (store example_world))
        = (Some (Error ''not found''), 1)"
    by (simp add: example_Storage_def example_world_def)
  have a1: "attempt (example_Storage 9) ?l (Suc 0) (Update (example_Storage 9) ?l (store example_world))
        = (Some (Error ''conflict''), 2)"
    by (simp add: example_Storage_def example_world_def)
  have a2: "attempt (example_Storage 9) ?l 2 (Update (example_Storage 9) ?l (store example_world))
        = (None, 3)"
    by (simp add: example_Storage_def example_world_def numeral_2_eq_2)
  have int: "IsInternalError example_X = (\<lambda>e. e = Error ''internal'')"
    by (simp add: example_X_def)
  have pre: "(\<forall>m<2. \<not> settled example_X (fst (attempt (Handler.storage ?h) ?l m
                               (Update (Handler.storage ?h) ?l (store example_world)))))
     \<and> settled example_X (fst (attempt (Handler.storage ?h) ?l 2
                               (Update (Handler.storage ?h) ?l (store example_world))))"
    unfolding sto using a0 a1 a2 by (simp add: settled_def int less_2_cases_iff)
  have busy: "\<forall>n. \<not> settled example_X (fst (attempt (Handler.storage (NewHandler busy_Storage)) ?l n
                               (Update (Handler.storage (NewHandler busy_Storage)) ?l (store example_world))))"
  proof
    fix n
    have u: "Update busy_Storage ?l (store example_world) = (Some (Error ''not found''), 1)"
      by (simp add: busy_Storage_def example_world_def)
    from attempt_busy_Storage[of "Error ''not found''" ?l n 1]
    obtain e' st' where "attempt busy_Storage ?l n (Some (Error ''not found''), 1) = (Some e', st')"
        "e' \<noteq> Error ''internal''" by auto
    then show "\<not> settled example_X (fst (attempt (Handler.storage (NewHandler busy_Storage)) ?l n
                               (Update (Handler.storage (NewHandler busy_Storage)) ?l (store example_world))))"
      by (simp add: NewHandler_def u settled_def int)
  qed
  from C3_discovery_upsert_update_then_create_until_settled
         [of 2 example_X ?h example_world] pre
  have 1: "\<exists>w'. autoDiscoveryOnTime example_X ?h example_world = Some (None, w')
      \<and> store w' = snd (attempt (Handler.storage ?h) ?l 2
                                (Update (Handler.storage ?h) ?l (store example_world)))
      \<and> since example_world w' =
          [Logger_Info ''Auto-discovering new machines on preset zones...'', Storage_Update ?l]
          @ replicate 2 (Storage_Create ?l)
          @ (case fst (attempt (Handler.storage ?h) ?l 2
                               (Update (Handler.storage ?h) ?l (store example_world))) of
                     None \<Rightarrow> []
                   | Some e \<Rightarrow> [Logger_Errorf ''Could not mark auto-discovery as `STARTED` state: %v'' e])
          @ [Logger_Sync]"
    by blast
  from C3_discovery_upsert_update_then_create_until_settled
         [of 0 example_X "NewHandler busy_Storage" example_world] busy
  have 2: "autoDiscoveryOnTime example_X (NewHandler busy_Storage) example_world = None"
    by blast
  from 1 2 show ?thesis
    unfolding sto a2 by (simp add: numeral_2_eq_2)
qed

section \<open>Properties of the main loop\<close>

lemma tags_distinct [simp]:
  "CREATE \<noteq> ERROR" "UPDATE \<noteq> ERROR" "DELETE \<noteq> ERROR" "ERROR \<noteq> CREATE" "ERROR \<noteq> UPDATE"
  "ERROR \<noteq> DELETE" "CREATE \<noteq> UPDATE" "UPDATE \<noteq> CREATE" "CREATE \<noteq> DELETE" "DELETE \<noteq> CREATE"
  by (simp_all add: CREATE_def UPDATE_def DELETE_def ERROR_def)

lemma LOOP_append:
  "LOOP this rv w (pre @ rest) =
     (case LOOP this rv w pre of
        Waiting rv' w' \<Rightarrow> LOOP this rv' w' rest
      | Broke rv' w' \<Rightarrow> Broke rv' w')"
  by (induction pre arbitrary: rv w) (auto split: prod.splits flow.splits)

lemma LOOP_breaking:
  assumes "\<And>rv w. select_body this c rv w = (break_LOOP, rv, w)"
  shows "LOOP this rv w (pre @ c # rest) =
     (case LOOP this rv w pre of Waiting rv' w' \<Rightarrow> Broke rv' w' | Broke rv' w' \<Rightarrow> Broke rv' w')"
  by (simp add: LOOP_append assms split: loop_end.splits)

lemma select_body_breaks:
  "select_body this recv_closeCh rv w = (break_LOOP, rv, w)"
  "select_body this (recv_machineEventChan (event\<lparr>Type := ERROR\<rparr>)) rv w = (break_LOOP, rv, w)"
  "select_body this (recv_digestEventChan (event\<lparr>Type := ERROR\<rparr>)) rv w = (break_LOOP, rv, w)"
  by (simp_all add: select_body_def)

text \<open>
  Claim C4. Whatever the loop has seen before (the history \<open>pre\<close>, from any state), an
  \<^verbatim>\<open>ERROR\<close> event on the machine stream or on the digest stream leaves the loop broken in
  that iteration: nothing after it is handled. An \<^verbatim>\<open>ERROR\<close> event on the discovered-machines
  stream is an iteration without effect: the run is the run of the history without it.
\<close>

theorem C4_ERROR_event_asymmetry:
  "LOOP this rv w (pre @ recv_machineEventChan (event\<lparr>Type := ERROR\<rparr>) # rest) =
     (case LOOP this rv w pre of Waiting rv' w' \<Rightarrow> Broke rv' w' | Broke rv' w' \<Rightarrow> Broke rv' w')
   \<and> LOOP this rv w (pre @ recv_digestEventChan (event\<lparr>Type := ERROR\<rparr>) # rest) =
     (case LOOP this rv w pre of Waiting rv' w' \<Rightarrow> Broke rv' w' | Broke rv' w' \<Rightarrow> Broke rv' w')
   \<and> LOOP this rv w (pre @ recv_autoDiscEventChan (event\<lparr>Type := ERROR\<rparr>) # rest) =
     LOOP this rv w (pre @ rest)
   \<and> select_body this (recv_machineEventChan (event\<lparr>Type := ERROR\<rparr>)) rv w = (break_LOOP, rv, w)
   \<and> select_body this (recv_digestEventChan (event\<lparr>Type := ERROR\<rparr>)) rv w = (break_LOOP, rv, w)
   \<and> select_body this (recv_autoDiscEventChan (event\<lparr>Type := ERROR\<rparr>)) rv w = (continue, rv, w)"
  by (simp add: LOOP_append select_body_def split: loop_end.splits)

text \<open>
  Claim C4 on the concrete environment: after one timer expiry, the machine and digest
  \<^verbatim>\<open>ERROR\<close> events end the loop before the second expiry; the discovered-machines \<^verbatim>\<open>ERROR\<close>
  event does not, and the second expiry is handled.
\<close>

theorem C4_ERROR_event_asymmetry_witness:
  "LOOP (example_Server 9 (\<lambda>t. 0)) False example_world
     ([recv_timer_C] @ recv_machineEventChan ((example_event CREATE [])\<lparr>Type := ERROR\<rparr>) # [recv_timer_C])
     = Broke True (example_world\<lparr>reads := 1, trace := [Timer_Reset Minute]\<rparr>)
   \<and> LOOP (example_Server 9 (\<lambda>t. 0)) False example_world
     ([recv_timer_C] @ recv_digestEventChan ((example_event CREATE [])\<lparr>Type := ERROR\<rparr>) # [recv_timer_C])
     = Broke True (example_world\<lparr>reads := 1, trace := [Timer_Reset Minute]\<rparr>)
   \<and> LOOP (example_Server 9 (\<lambda>t. 0)) False example_world
     ([recv_timer_C] @ recv_autoDiscEventChan ((example_event CREATE [])\<lparr>Type := ERROR\<rparr>) # [recv_timer_C])
     = Waiting True (example_world\<lparr>reads := 2, trace := [Timer_Reset Minute, Timer_Reset Minute]\<rparr>)"
proof -
  let ?srv = "example_Server 9 (\<lambda>t. 0)"
  have s: "sche ?srv = (\<lambda>t. 0)"
    by (simp add: example_Server_def Prepare_def)
  have 1: "LOOP ?srv False example_world [recv_timer_C] =
             Waiting True (example_world\<lparr>reads := 1, trace := [Timer_Reset Minute]\<rparr>)"
    by (simp add: select_body_def s IsZero_def time_Now_def emit_def example_world_def)
  have 2: "LOOP ?srv False example_world ([recv_timer_C] @ [recv_timer_C]) =
             Waiting True (example_world\<lparr>reads := 2, trace := [Timer_Reset Minute, Timer_Reset Minute]\<rparr>)"
    by (simp add: select_body_def s IsZero_def time_Now_def emit_def example_world_def numeral_2_eq_2)
  from C4_ERROR_event_asymmetry
         [of ?srv False example_world "[recv_timer_C]" "example_event CREATE []" "[recv_timer_C]"]
  show ?thesis
    by (simp only: 1 2 loop_end.case)
qed

lemma select_body_timer_next:
  assumes "\<not> IsZero (sche this (now_at w (reads w)))"
  shows "select_body this recv_timer_C rv w =
     (continue, False,
      w\<lparr>reads := Suc (Suc (reads w)),
        trace := trace w @
          [Timer_Reset (Sub (sche this (now_at w (reads w))) (now_at w (Suc (reads w)))),
           Go Task_createMachineDigestOnTime, Go Task_autoDiscoveryOnTime]\<rparr>)"
  using assms by (simp add: select_body_def time_Now_def emit_def)

text \<open>
  Claim C5. A timer expiry at which the schedule returns a next activation other than the zero
  instant: the iteration clears \<^verbatim>\<open>revalidate\<close>, resets the timer to the time from now to that
  activation, and starts exactly two goroutines, digest creation and the discovery sweep.
\<close>

theorem C5_timer_expiry_dispatches_two_and_rearms:
  assumes "\<not> IsZero (sche this (now_at w (reads w)))"
  shows "select_body this recv_timer_C rv w =
     (continue, False,
      w\<lparr>reads := Suc (Suc (reads w)),
        trace := trace w @
          [Timer_Reset (Sub (sche this (now_at w (reads w))) (now_at w (Suc (reads w)))),
           Go Task_createMachineDigestOnTime, Go Task_autoDiscoveryOnTime]\<rparr>)
   \<and> Go_calls (since w (snd (snd (select_body this recv_timer_C rv w)))) =
       [Task_createMachineDigestOnTime, Task_autoDiscoveryOnTime]
   \<and> Timer_Reset_calls (since w (snd (snd (select_body this recv_timer_C rv w)))) =
       [Sub (sche this (now_at w (reads w))) (now_at w (Suc (reads w)))]"
  by (simp add: select_body_timer_next[OF assms] since_def)

text \<open>Claim C5 on the concrete environment: the next activation is 5 after the reading.\<close>

theorem C5_timer_expiry_dispatches_two_and_rearms_witness:
  "select_body (example_Server 9 (\<lambda>t. t + 5)) recv_timer_C True example_world =
     (continue, False,
      example_world\<lparr>reads := 2,
        trace := [Timer_Reset 4, Go Task_createMachineDigestOnTime, Go Task_autoDiscoveryOnTime]\<rparr>)"
proof -
  have s: "sche (example_Server 9 (\<lambda>t. t + 5)) = (\<lambda>t. t + 5)"
    by (simp add: example_Server_def Prepare_def)
  have h: "\<not> IsZero (sche (example_Server 9 (\<lambda>t. t + 5)) (now_at example_world (reads example_world)))"
    by (simp add: s IsZero_def example_world_def)
  from C5_timer_expiry_dispatches_two_and_rearms[OF h, of True] show ?thesis
    by (simp add: s example_world_def Sub_def minDuration_def maxDuration_def numeral_2_eq_2)
qed

lemma select_body_timer_indefinite:
  assumes "IsZero (sche this (now_at w (reads w)))"
  shows "select_body this recv_timer_C rv w =
     (continue, True, w\<lparr>reads := Suc (reads w), trace := trace w @ [Timer_Reset Minute]\<rparr>)"
  using assms by (simp add: select_body_def time_Now_def emit_def)

lemma Timer_Reset_calls_append [simp]:
  "Timer_Reset_calls (xs @ ys) = Timer_Reset_calls xs @ Timer_Reset_calls ys"
  by (induction xs rule: Timer_Reset_calls.induct) simp_all

lemma select_body_indefinite:
  assumes "\<forall>t. IsZero (sche this t)"
  shows "\<exists>es. trace (snd (snd (select_body this c rv w))) = trace w @ es \<and> filter periodic es = []
           \<and> Timer_Reset_calls es = (if c = recv_timer_C then [Minute] else [])"
  using assms by (cases c) (simp_all add: select_body_def time_Now_def emit_def)

lemma LOOP_indefinite:
  assumes "\<forall>t. IsZero (sche this t)"
  shows "\<exists>es. trace (world_of (LOOP this rv w events)) = trace w @ es \<and> filter periodic es = []
           \<and> set (Timer_Reset_calls es) \<subseteq> {Minute}
           \<and> (\<forall>rv' w'. LOOP this rv w events = Waiting rv' w' \<longrightarrow>
                 Timer_Reset_calls es = replicate (count_list events recv_timer_C) Minute)"
proof (induction events arbitrary: rv w)
  case Nil
  then show ?case by (simp add: world_of_def)
next
  case (Cons c cs)
  obtain fl rv1 w1 where sb: "select_body this c rv w = (fl, rv1, w1)"
    by (cases "select_body this c rv w") auto
  from select_body_indefinite[OF assms, of c rv w] sb
  obtain es1 where es1: "trace w1 = trace w @ es1" "filter periodic es1 = []"
      "Timer_Reset_calls es1 = (if c = recv_timer_C then [Minute] else [])"
    by auto
  show ?case
  proof (cases fl)
    case break_LOOP
    with sb es1 show ?thesis by (auto simp: world_of_def)
  next
    case continue
    from Cons.IH[of rv1 w1]
    obtain es2 where es2: "trace (world_of (LOOP this rv1 w1 cs)) = trace w1 @ es2"
        "filter periodic es2 = []" "set (Timer_Reset_calls es2) \<subseteq> {Minute}"
        "\<forall>rv' w'. LOOP this rv1 w1 cs = Waiting rv' w' \<longrightarrow>
                 Timer_Reset_calls es2 = replicate (count_list cs recv_timer_C) Minute"
      by blast
    have step: "LOOP this rv w (c # cs) = LOOP this rv1 w1 cs"
      using sb continue by simp
    have "trace (world_of (LOOP this rv w (c # cs))) = trace w @ (es1 @ es2)"
      using step es1(1) es2(1) by simp
    moreover have "filter periodic (es1 @ es2) = []"
      using es1(2) es2(2) by simp
    moreover have "set (Timer_Reset_calls (es1 @ es2)) \<subseteq> {Minute}"
      using es1(3) es2(3) by auto
    moreover have "\<forall>rv' w'. LOOP this rv w (c # cs) = Waiting rv' w' \<longrightarrow>
                 Timer_Reset_calls (es1 @ es2) = replicate (count_list (c # cs) recv_timer_C) Minute"
      using step es1(3) es2(4) by simp
    ultimately show ?thesis by blast
  qed
qed

text \<open>
  Claim C6. With a schedule that returns the zero instant on every query: a timer expiry
  resets the timer to one minute and starts nothing; over any history, from any state, the
  loop starts neither periodic goroutine and every timer reset is one minute, one per timer
  expiry handled; and the initial timer is one minute too.
\<close>

theorem C6_indefinite_schedule_rearms_minute_never_dispatches:
  assumes "\<forall>t. IsZero (sche this t)"
  shows "select_body this recv_timer_C rv w =
       (continue, True, w\<lparr>reads := Suc (reads w), trace := trace w @ [Timer_Reset Minute]\<rparr>)
   \<and> filter periodic (since w (world_of (LOOP this rv w events))) = []
   \<and> set (Timer_Reset_calls (since w (world_of (LOOP this rv w events)))) \<subseteq> {Minute}
   \<and> (\<forall>rv' w'. LOOP this rv w events = Waiting rv' w' \<longrightarrow>
         Timer_Reset_calls (since w w') = replicate (count_list events recv_timer_C) Minute)
   \<and> initial_timer this w = (True, emit (time_NewTimer Minute) (w\<lparr>reads := Suc (reads w)\<rparr>))"
proof -
  from assms have z: "IsZero (sche this (now_at w (reads w)))" by blast
  from LOOP_indefinite[OF assms, of rv w events]
  obtain es where es: "trace (world_of (LOOP this rv w events)) = trace w @ es"
      "filter periodic es = []" "set (Timer_Reset_calls es) \<subseteq> {Minute}"
      "\<forall>rv' w'. LOOP this rv w events = Waiting rv' w' \<longrightarrow>
                 Timer_Reset_calls es = replicate (count_list events recv_timer_C) Minute"
    by blast
  have si: "since w (world_of (LOOP this rv w events)) = es"
    using es(1) by (simp add: since_def)
  have "\<forall>rv' w'. LOOP this rv w events = Waiting rv' w' \<longrightarrow>
         Timer_Reset_calls (since w w') = replicate (count_list events recv_timer_C) Minute"
  proof (intro allI impI)
    fix rv' w' assume W: "LOOP this rv w events = Waiting rv' w'"
    then have "world_of (LOOP this rv w events) = w'" by (simp add: world_of_def)
    with si es(4) W show "Timer_Reset_calls (since w w') = replicate (count_list events recv_timer_C) Minute"
      by auto
  qed
  moreover have "initial_timer this w = (True, emit (time_NewTimer Minute) (w\<lparr>reads := Suc (reads w)\<rparr>))"
    using z by (simp add: initial_timer_def time_Now_def)
  ultimately show ?thesis
    using select_body_timer_indefinite[OF z, of rv] si es(2,3) by simp
qed

text \<open>Claim C6 on the concrete environment: two expiries with a digest event between them.\<close>

theorem C6_indefinite_schedule_rearms_minute_never_dispatches_witness:
  "LOOP (example_Server 9 (\<lambda>t. 0)) False example_world
      [recv_timer_C, recv_digestEventChan (example_event CREATE [1]), recv_timer_C] =
     Waiting True
       (example_world\<lparr>reads := 2,
          trace := [Timer_Reset Minute, Go (Task_refreshMachineSnapshotOnEvent (example_event CREATE [1])),
                    Timer_Reset Minute]\<rparr>)
   \<and> Timer_Reset_calls (since example_world
        (example_world\<lparr>reads := 2,
          trace := [Timer_Reset Minute, Go (Task_refreshMachineSnapshotOnEvent (example_event CREATE [1])),
                    Timer_Reset Minute]\<rparr>)) = replicate 2 Minute"
proof -
  let ?srv = "example_Server 9 (\<lambda>t. 0)"
  let ?evs = "[recv_timer_C, recv_digestEventChan (example_event CREATE [1]), recv_timer_C]"
  have s: "sche ?srv = (\<lambda>t. 0)"
    by (simp add: example_Server_def Prepare_def)
  have h: "\<forall>t. IsZero (sche ?srv t)"
    by (simp add: s IsZero_def)
  have L: "LOOP ?srv False example_world ?evs =
     Waiting True
       (example_world\<lparr>reads := 2,
          trace := [Timer_Reset Minute, Go (Task_refreshMachineSnapshotOnEvent (example_event CREATE [1])),
                    Timer_Reset Minute]\<rparr>)"
    by (simp add: select_body_def s IsZero_def time_Now_def emit_def example_world_def
        example_event_def numeral_2_eq_2)
  have cnt: "count_list ?evs recv_timer_C = 2" by simp
  from C6_indefinite_schedule_rearms_minute_never_dispatches[OF h, of False example_world ?evs]
  have "\<forall>rv' w'. LOOP ?srv False example_world ?evs = Waiting rv' w' \<longrightarrow>
         Timer_Reset_calls (since example_world w') = replicate (count_list ?evs recv_timer_C) Minute"
    by blast
  with L have "Timer_Reset_calls (since example_world
        (example_world\<lparr>reads := 2,
          trace := [Timer_Reset Minute, Go (Task_refreshMachineSnapshotOnEvent (example_event CREATE [1])),
                    Timer_Reset Minute]\<rparr>)) = replicate (count_list ?evs recv_timer_C) Minute"
    by blast
  with L cnt show ?thesis by (simp only:)
qed

section \<open>Properties of Serve\<close>

lemma close_chan_calls_append [simp]:
  "close_chan_calls (xs @ ys) = close_chan_calls xs @ close_chan_calls ys"
  by (induction xs rule: close_chan_calls.induct) simp_all

lemma Watcher_Close_calls_append [simp]:
  "Watcher_Close_calls (xs @ ys) = Watcher_Close_calls xs @ Watcher_Close_calls ys"
  by (induction xs rule: Watcher_Close_calls.induct) simp_all

lemma no_closeI:
  "chans w' = chans w \<Longrightarrow> trace w' = trace w @ es \<Longrightarrow> close_chan_calls es = [] \<Longrightarrow> no_close w w'"
  by (simp add: no_close_def since_def)

lemma no_closeE:
  assumes "no_close w w'"
  obtains es where "chans w' = chans w" "trace w' = trace w @ es" "close_chan_calls es = []"
proof -
  have "take (length (trace w)) (trace w') @ drop (length (trace w)) (trace w') = trace w'"
    by (rule append_take_drop_id)
  with assms have "trace w' = trace w @ since w w'"
    by (simp add: no_close_def since_def)
  moreover from assms have "chans w' = chans w" "close_chan_calls (since w w') = []"
    by (simp_all add: no_close_def)
  ultimately show thesis using that by blast
qed

lemma no_close_refl [simp]: "no_close w w"
  by (rule no_closeI[where es = "[]"]) simp_all

lemma no_close_trans:
  assumes "no_close w w1" and "no_close w1 w2"
  shows "no_close w w2"
proof -
  from assms(1) obtain es1 where 1: "chans w1 = chans w" "trace w1 = trace w @ es1"
      "close_chan_calls es1 = []" by (rule no_closeE)
  from assms(2) obtain es2 where 2: "chans w2 = chans w1" "trace w2 = trace w1 @ es2"
      "close_chan_calls es2 = []" by (rule no_closeE)
  show ?thesis
    by (rule no_closeI[where es = "es1 @ es2"]) (simp_all add: 1 2)
qed

lemma no_close_select_body: "no_close w (snd (snd (select_body this c rv w)))"
  by (cases c) (auto intro!: no_closeI simp: select_body_def time_Now_def emit_def)

lemma no_close_LOOP: "no_close w (world_of (LOOP this rv w events))"
proof (induction events arbitrary: rv w)
  case Nil
  show ?case by (simp add: world_of_def)
next
  case (Cons c cs)
  obtain fl rv1 w1 where sb: "select_body this c rv w = (fl, rv1, w1)"
    by (cases "select_body this c rv w") auto
  have 1: "no_close w w1" using no_close_select_body[of w this c rv] sb by simp
  show ?case
  proof (cases fl)
    case break_LOOP
    with sb 1 show ?thesis by (simp add: world_of_def)
  next
    case continue
    with sb have "LOOP this rv w (c # cs) = LOOP this rv1 w1 cs" by simp
    with no_close_trans[OF 1 Cons.IH] show ?thesis by simp
  qed
qed

lemma no_close_initial_timer: "no_close w (snd (initial_timer this w))"
  by (auto intro!: no_closeI simp: initial_timer_def time_Now_def emit_def)

lemma no_close_after_LOOP: "no_close w (snd (after_LOOP this w))"
  by (auto intro!: no_closeI simp: after_LOOP_def Close_def emit_def split: option.splits)

lemma no_close_run: "no_close w (snd (run this w events))"
proof (cases "\<exists>mo dg ad. machineObserver this = Some mo \<and> digestObserver this = Some dg \<and> autoDiscObserver this = Some ad")
  case False
  then show ?thesis by (auto simp: run_def split: option.splits)
next
  case True
  then obtain mo dg ad where obs: "machineObserver this = Some mo" "digestObserver this = Some dg"
    "autoDiscObserver this = Some ad" by blast
  let ?w0 = "emit (Watcher_Output ad) (emit (Watcher_Output dg) (emit (Watcher_Output mo) w))"
  obtain rv w1 where it: "initial_timer this ?w0 = (rv, w1)" by (cases "initial_timer this ?w0") auto
  have a: "no_close w ?w0" by (auto intro!: no_closeI simp: emit_def)
  have b: "no_close ?w0 w1" using no_close_initial_timer[of ?w0 this] it by simp
  have c: "no_close w1 (world_of (LOOP this rv w1 events))" by (rule no_close_LOOP)
  show ?thesis
  proof (cases "LOOP this rv w1 events")
    case (Waiting rv' w2)
    with c have "no_close w1 w2" by (simp add: world_of_def)
    with a b have "no_close w w2" by (blast intro: no_close_trans)
    with obs it Waiting show ?thesis by (simp add: run_def)
  next
    case (Broke rv' w2)
    with c have "no_close w1 w2" by (simp add: world_of_def)
    with a b have "no_close w w2" by (blast intro: no_close_trans)
    with no_close_after_LOOP[of w2 this] have "no_close w (snd (after_LOOP this w2))"
      by (blast intro: no_close_trans)
    with obs it Broke show ?thesis by (simp add: run_def)
  qed
qed

lemma no_close_storage_Watch: "no_close w (snd (storage_Watch sto obj m w))"
  by (auto intro!: no_closeI simp: storage_Watch_def emit_def split: prod.splits)

lemma establish_frame:
  "(case establish X this w of
      Inl (out, this', w') \<Rightarrow> no_close w w' \<and> clzSubCh this' = clzSubCh this \<and> out \<noteq> blocks
    | Inr (this', w') \<Rightarrow>
        no_close w w' \<and> clzSubCh this' = clzSubCh this \<and> sche this' = sche this
        \<and> machineObserver this' \<noteq> None \<and> digestObserver this' \<noteq> None
        \<and> autoDiscObserver this' \<noteq> None)"
proof (cases "storage this")
  case None
  then show ?thesis by (simp add: establish_def)
next
  case (Some sto)
  obtain r1 w1 where 1: "storage_Watch sto (NewMachine X) WatchOnKind w = (r1, w1)"
    by (cases "storage_Watch sto (NewMachine X) WatchOnKind w") auto
  obtain r2 w2 where 2: "storage_Watch sto (NewMachineDigest X) WatchOnKind w1 = (r2, w2)"
    by (cases "storage_Watch sto (NewMachineDigest X) WatchOnKind w1") auto
  obtain r3 w3 where 3: "storage_Watch sto (NewDiscoveredMachines X) WatchOnName w2 = (r3, w3)"
    by (cases "storage_Watch sto (NewDiscoveredMachines X) WatchOnName w2") auto
  have n1: "no_close w w1" using no_close_storage_Watch[of w sto "NewMachine X" WatchOnKind] 1 by simp
  have "no_close w1 w2"
    using no_close_storage_Watch[of w1 sto "NewMachineDigest X" WatchOnKind] 2 by simp
  with n1 have n2: "no_close w w2" by (rule no_close_trans)
  have "no_close w2 w3"
    using no_close_storage_Watch[of w2 sto "NewDiscoveredMachines X" WatchOnName] 3 by simp
  with n2 have n3: "no_close w w3" by (rule no_close_trans)
  show ?thesis
    using Some 1 2 3 n1 n2 n3 by (simp add: establish_def split: sum.splits)
qed

lemma close_each_live:
  assumes "distinct cs" and "list_all (\<lambda>c. c < length (chans w) \<and> \<not> chans w ! c) cs"
  shows "\<exists>w'. close_each cs w = (None, w') \<and> trace w' = trace w @ map close_chan cs
           \<and> length (chans w') = length (chans w)
           \<and> (\<forall>d. chans w ! d \<longrightarrow> chans w' ! d)
           \<and> list_all (\<lambda>c. chans w' ! c) cs"
  using assms
proof (induction cs arbitrary: w)
  case Nil
  then show ?case by simp
next
  case (Cons c cs)
  let ?w1 = "emit (close_chan c) (w\<lparr>chans := (chans w)[c := True]\<rparr>)"
  from Cons.prems have c: "c < length (chans w)" "\<not> chans w ! c" "c \<notin> set cs" "distinct cs"
    and rest: "\<forall>d \<in> set cs. d < length (chans w) \<and> \<not> chans w ! d"
    by (simp_all add: list_all_iff)
  have ch1: "chans ?w1 = (chans w)[c := True]" by (simp add: emit_def)
  have tr1: "trace ?w1 = trace w @ [close_chan c]" by (simp add: emit_def)
  from c have cl: "close c w = Inr ?w1" by (simp add: close_def)
  have "\<forall>d \<in> set cs. d < length (chans ?w1) \<and> \<not> chans ?w1 ! d"
  proof
    fix d assume d: "d \<in> set cs"
    with c(3) have "c \<noteq> d" by blast
    with rest d c(1) show "d < length (chans ?w1) \<and> \<not> chans ?w1 ! d"
      by (simp add: ch1)
  qed
  then have "list_all (\<lambda>d. d < length (chans ?w1) \<and> \<not> chans ?w1 ! d) cs"
    by (simp add: list_all_iff)
  from Cons.IH[OF c(4) this]
  obtain w' where w': "close_each cs ?w1 = (None, w')" "trace w' = trace ?w1 @ map close_chan cs"
      "length (chans w') = length (chans ?w1)" "\<forall>d. chans ?w1 ! d \<longrightarrow> chans w' ! d"
      "list_all (\<lambda>c. chans w' ! c) cs"
    by blast
  have "chans ?w1 ! c" using c(1) by (simp add: ch1)
  with w'(4) have keep: "chans w' ! c" by blast
  have mono: "\<forall>d. chans w ! d \<longrightarrow> chans w' ! d"
  proof (intro allI impI)
    fix d assume "chans w ! d"
    then have "chans ?w1 ! d" using c(1) by (cases "c = d") (simp_all add: emit_def)
    with w'(4) show "chans w' ! d" by blast
  qed
  have "close_each (c # cs) w = (None, w')" using cl w'(1) by simp
  moreover have "trace w' = trace w @ map close_chan (c # cs)" using w'(2) tr1 by simp
  moreover have "length (chans w') = length (chans w)" using w'(3) by (simp add: ch1)
  moreover have "list_all (\<lambda>c. chans w' ! c) (c # cs)" using keep w'(5) by simp
  ultimately show ?case using mono by blast
qed

lemma deferred_live:
  assumes "subs_ok this w"
  shows "\<exists>w'. deferred this w = (None, this\<lparr>clzSubCh := []\<rparr>, w')
           \<and> trace w' = trace w @ map close_chan (clzSubCh this)
           \<and> list_all (\<lambda>c. chans w' ! c) (clzSubCh this)"
proof -
  from assms have "distinct (clzSubCh this)"
      "list_all (\<lambda>c. c < length (chans w) \<and> \<not> chans w ! c) (clzSubCh this)"
    by (simp_all add: subs_ok_def)
  from close_each_live[OF this] show ?thesis
    by (auto simp: deferred_def)
qed

lemma close_chan_calls_map [simp]: "close_chan_calls (map close_chan cs) = cs"
  by (induction cs) simp_all

lemma Serve_body_frame:
  assumes "Serve_body X this w events = (out, this', w')"
  shows "no_close w w' \<and> clzSubCh this' = clzSubCh this"
proof (cases "establish X this w")
  case (Inl r)
  with assms establish_frame[where X = X and this = this and w = w] show ?thesis
    by (auto simp: Serve_body_def)
next
  case (Inr p)
  obtain this1 w1 where p: "p = (this1, w1)" by (cases p)
  from Inr p establish_frame[where X = X and this = this and w = w]
  have e: "no_close w w1" "clzSubCh this1 = clzSubCh this" by simp_all
  from assms Inr p have "w' = snd (run this1 w1 events)" "this' = this1"
    by (auto simp: Serve_body_def split: prod.splits)
  with e no_close_run[of w1 this1 events] show ?thesis
    by (auto intro: no_close_trans)
qed

lemma Serve_notifies_subscribers:
  assumes ok: "subs_ok this w"
    and S: "Serve X this w events = (out, this', w')"
    and out: "out \<noteq> blocks"
  shows "clzSubCh this' = [] \<and> close_chan_calls (since w w') = clzSubCh this
         \<and> list_all (\<lambda>c. chans w' ! c) (clzSubCh this)
         \<and> fst (Serve_body X this w events) = out"
proof -
  obtain o1 this1 w1 where B: "Serve_body X this w events = (o1, this1, w1)"
    by (cases "Serve_body X this w events") auto
  from Serve_body_frame[OF B] have nc: "no_close w w1" and subs: "clzSubCh this1 = clzSubCh this"
    by simp_all
  from nc obtain es where es: "chans w1 = chans w" "trace w1 = trace w @ es" "close_chan_calls es = []"
    by (rule no_closeE)
  from ok subs es(1) have "subs_ok this1 w1" by (simp add: subs_ok_def)
  from deferred_live[OF this] obtain w2 where
    d: "deferred this1 w1 = (None, this1\<lparr>clzSubCh := []\<rparr>, w2)"
       "trace w2 = trace w1 @ map close_chan (clzSubCh this1)"
       "list_all (\<lambda>c. chans w2 ! c) (clzSubCh this1)"
    by blast
  have nb: "o1 \<noteq> blocks" using S out B by (auto simp: Serve_def split: outcome.splits)
  then have "Serve X this w events = (o1, this1\<lparr>clzSubCh := []\<rparr>, w2)"
    using B d(1) by (cases o1) (simp_all add: Serve_def)
  with S have eq: "out = o1" "this' = this1\<lparr>clzSubCh := []\<rparr>" "w' = w2" by simp_all
  have "trace w' = trace w @ (es @ map close_chan (clzSubCh this))"
    using eq d(2) es(2) subs by simp
  then have "since w w' = es @ map close_chan (clzSubCh this)" by (simp add: since_def)
  with es(3) eq d(3) subs B show ?thesis by simp
qed

lemma subs_ok_Subscribe:
  assumes "subs_ok this w" and "Subscribe this w = (c, this', w')"
  shows "subs_ok this' w' \<and> clzSubCh this' = clzSubCh this @ [c]"
proof -
  from assms(2) have c: "c = length (chans w)" and t: "this' = this\<lparr>clzSubCh := clzSubCh this @ [c]\<rparr>"
    and w': "w' = w\<lparr>chans := chans w @ [False]\<rparr>"
    by (auto simp: Subscribe_def make_chan_def)
  from assms(1) have d: "distinct (clzSubCh this)"
    and l: "\<forall>x \<in> set (clzSubCh this). x < length (chans w) \<and> \<not> chans w ! x"
    by (simp_all add: subs_ok_def list_all_iff)
  from l c have "c \<notin> set (clzSubCh this)" by auto
  with d have "distinct (clzSubCh this')" by (simp add: t)
  moreover have "\<forall>x \<in> set (clzSubCh this'). x < length (chans w') \<and> \<not> chans w' ! x"
    using l c by (auto simp: t w' nth_append)
  ultimately show ?thesis by (simp add: subs_ok_def list_all_iff t)
qed

lemma subs_ok_Subscribes:
  assumes "subs_ok this w" and "Subscribes n this w = (cs, this', w')"
  shows "subs_ok this' w' \<and> clzSubCh this' = clzSubCh this @ cs"
  using assms
proof (induction n arbitrary: this w cs this' w')
  case 0
  then show ?case by simp
next
  case (Suc n)
  obtain c this1 w1 where 1: "Subscribe this w = (c, this1, w1)"
    by (cases "Subscribe this w") auto
  obtain cs' this2 w2 where 2: "Subscribes n this1 w1 = (cs', this2, w2)"
    by (cases "Subscribes n this1 w1") auto
  from Suc.prems(2) 1 2 have eq: "cs = c # cs'" "this' = this2" "w' = w2" by simp_all
  from subs_ok_Subscribe[OF Suc.prems(1) 1] have a: "subs_ok this1 w1" "clzSubCh this1 = clzSubCh this @ [c]"
    by simp_all
  from Suc.IH[OF a(1) 2] a(2) eq show ?case by simp
qed

text \<open>
  Claim C8. Take a server with an empty registry (as \<^verbatim>\<open>NewServer\<close> returns it), call
  \<^verbatim>\<open>Subscribe\<close> any number of times, then \<^verbatim>\<open>Serve\<close>. When \<^verbatim>\<open>Serve\<close> ends, by whatever path,
  the channels it closed are exactly the handles \<^verbatim>\<open>Subscribe\<close> returned, each once, in the
  order of registration; each handle is closed in the final world; the registry is empty.
\<close>

theorem C8_every_subscriber_notified_once_in_order:
  assumes "clzSubCh this0 = []"
    and "Subscribes n this0 w0 = (handles, this, w)"
    and "Serve X this w events = (out, this', w')"
    and "out \<noteq> blocks"
  shows "close_chan_calls (since w w') = handles \<and> distinct handles
         \<and> list_all (\<lambda>c. chans w' ! c) handles \<and> clzSubCh this' = []"
proof -
  from assms(1) have "subs_ok this0 w0" by (simp add: subs_ok_def)
  from subs_ok_Subscribes[OF this assms(2)] assms(1)
  have ok: "subs_ok this w" and reg: "clzSubCh this = handles" by simp_all
  from ok reg have "distinct handles" by (simp add: subs_ok_def)
  with Serve_notifies_subscribers[OF ok assms(3) assms(4)] reg show ?thesis by simp
qed

text \<open>Claim C8 on the concrete environment: two subscribers, then a stop signal.\<close>

theorem C8_every_subscriber_notified_once_in_order_witness:
  "Subscribes 2 (example_Server 9 (\<lambda>t. t + 5)) example_world =
     ([1, 2], (example_Server 9 (\<lambda>t. t + 5))\<lparr>clzSubCh := [1, 2]\<rparr>,
      example_world\<lparr>chans := [False, False, False]\<rparr>)
   \<and> fst (Serve example_X ((example_Server 9 (\<lambda>t. t + 5))\<lparr>clzSubCh := [1, 2]\<rparr>)
            (example_world\<lparr>chans := [False, False, False]\<rparr>) [recv_closeCh]) = returns None
   \<and> close_chan_calls
        (since (example_world\<lparr>chans := [False, False, False]\<rparr>)
          (snd (snd (Serve example_X ((example_Server 9 (\<lambda>t. t + 5))\<lparr>clzSubCh := [1, 2]\<rparr>)
                       (example_world\<lparr>chans := [False, False, False]\<rparr>) [recv_closeCh])))) = [1, 2]
   \<and> clzSubCh (fst (snd (Serve example_X ((example_Server 9 (\<lambda>t. t + 5))\<lparr>clzSubCh := [1, 2]\<rparr>)
                       (example_world\<lparr>chans := [False, False, False]\<rparr>) [recv_closeCh]))) = []"
proof -
  let ?srv = "(example_Server 9 (\<lambda>t. t + 5))\<lparr>clzSubCh := [1, 2]\<rparr>"
  let ?w = "example_world\<lparr>chans := [False, False, False]\<rparr>"
  have e: "clzSubCh (example_Server 9 (\<lambda>t. t + 5)) = []"
    by (simp add: example_Server_def Prepare_def)
  have s: "Subscribes 2 (example_Server 9 (\<lambda>t. t + 5)) example_world = ([1, 2], ?srv, ?w)"
    by (simp add: numeral_2_eq_2 Subscribe_def make_chan_def example_Server_def Prepare_def
        example_world_def)
  have o: "fst (Serve example_X ?srv ?w [recv_closeCh]) = returns None"
    by code_simp
  then have nb: "fst (Serve example_X ?srv ?w [recv_closeCh]) \<noteq> blocks" by simp
  have S: "Serve example_X ?srv ?w [recv_closeCh] =
      (fst (Serve example_X ?srv ?w [recv_closeCh]), fst (snd (Serve example_X ?srv ?w [recv_closeCh])),
       snd (snd (Serve example_X ?srv ?w [recv_closeCh])))" by simp
  from C8_every_subscriber_notified_once_in_order[OF e s S nb] s o show ?thesis by simp
qed

lemma after_LOOP_returns:
  assumes "machineObserver this = Some mo" and "digestObserver this = Some dg"
  shows "after_LOOP this w =
           (returns None, emit (Watcher_Close dg) (emit (Watcher_Close mo) (emit Timer_Stop w)))"
  using assms by (simp add: after_LOOP_def Close_def)

lemma after_LOOP_not_blocks: "fst (after_LOOP this w) \<noteq> blocks"
  by (simp add: after_LOOP_def Close_def split: option.splits)

lemma Serve_blocks: "fst (Serve X this w events) = blocks \<longleftrightarrow> fst (Serve_body X this w events) = blocks"
proof -
  obtain o1 this1 w1 where B: "Serve_body X this w events = (o1, this1, w1)"
    by (cases "Serve_body X this w events") auto
  obtain p this2 w2 where D: "deferred this1 w1 = (p, this2, w2)"
    by (cases "deferred this1 w1") auto
  show ?thesis
    using B D by (cases o1; cases p) (simp_all add: Serve_def)
qed

lemma Serve_outcome_of_body:
  assumes "subs_ok this w"
  shows "fst (Serve X this w events) = fst (Serve_body X this w events)"
proof (cases "fst (Serve_body X this w events) = blocks")
  case True
  then show ?thesis using Serve_blocks[of X this w events] by simp
next
  case False
  then have nb: "fst (Serve X this w events) \<noteq> blocks"
    using Serve_blocks[of X this w events] by simp
  have S: "Serve X this w events =
      (fst (Serve X this w events), fst (snd (Serve X this w events)), snd (snd (Serve X this w events)))"
    by simp
  from Serve_notifies_subscribers[OF assms S nb] show ?thesis by simp
qed

lemma Serve_body_breaking:
  assumes blk: "fst (Serve_body X this w pre) = blocks"
    and brk: "\<And>(t :: 'st Server) rv w. select_body t c rv w = (break_LOOP, rv, w)"
  shows "fst (Serve_body X (this :: 'st Server) w (pre @ c # rest)) = returns None"
proof (cases "establish X this w")
  case (Inl r)
  obtain out this1 w1 where r: "r = (out, this1, w1)" by (cases r)
  with Inl establish_frame[where X = X and this = this and w = w] have "out \<noteq> blocks" by simp
  with Inl r blk show ?thesis by (simp add: Serve_body_def)
next
  case (Inr p)
  obtain this1 w1 where p: "p = (this1, w1)" by (cases p)
  with Inr establish_frame[where X = X and this = this and w = w]
  obtain mo dg ad where obs: "machineObserver this1 = Some mo" "digestObserver this1 = Some dg"
      "autoDiscObserver this1 = Some ad"
    by auto
  let ?w0 = "emit (Watcher_Output ad) (emit (Watcher_Output dg) (emit (Watcher_Output mo) w1))"
  obtain rv w2 where it: "initial_timer this1 ?w0 = (rv, w2)"
    by (cases "initial_timer this1 ?w0") auto
  have body: "\<And>evs. fst (Serve_body X this w evs) =
      (case LOOP this1 rv w2 evs of Waiting _ w3 \<Rightarrow> blocks | Broke _ w3 \<Rightarrow> fst (after_LOOP this1 w3))"
    using Inr p obs it by (auto simp: Serve_body_def run_def split: prod.splits loop_end.splits)
  from blk body[of pre] obtain rv' w3 where W: "LOOP this1 rv w2 pre = Waiting rv' w3"
    using after_LOOP_not_blocks by (cases "LOOP this1 rv w2 pre") auto
  have "LOOP this1 rv w2 (pre @ c # rest) = Broke rv' w3"
    using LOOP_breaking[OF brk, of this1 rv w2 pre rest] W by simp
  with body[of "pre @ c # rest"] after_LOOP_returns[OF obs(1,2)] show ?thesis by simp
qed

lemma Serve_breaking_same:
  fixes this :: "'st Server"
  assumes "\<And>(t :: 'st Server) rv w. select_body t c rv w = (break_LOOP, rv, w)"
    and "\<And>(t :: 'st Server) rv w. select_body t c' rv w = (break_LOOP, rv, w)"
  shows "Serve X this w (pre @ c # rest) = Serve X this w (pre @ c' # rest')"
proof -
  have L: "\<And>(t :: 'st Server) rv w. LOOP t rv w (pre @ c # rest) = LOOP t rv w (pre @ c' # rest')"
    by (simp add: LOOP_breaking[OF assms(1)] LOOP_breaking[OF assms(2)])
  have R: "\<And>(t :: 'st Server) w. run t w (pre @ c # rest) = run t w (pre @ c' # rest')"
    unfolding run_def L by (rule refl)
  have "Serve_body X this w (pre @ c # rest) = Serve_body X this w (pre @ c' # rest')"
    unfolding Serve_body_def R by (rule refl)
  then show ?thesis by (simp add: Serve_def)
qed

text \<open>
  Claim C9. Let \<^verbatim>\<open>Serve\<close> be in its loop after the history \<open>pre\<close>, with a sound subscriber
  registry. Whether the next case is the stop signal, an \<^verbatim>\<open>ERROR\<close> event on the machine stream
  or an \<^verbatim>\<open>ERROR\<close> event on the digest stream, \<^verbatim>\<open>Serve\<close> returns nil; and the three runs end
  with the same result, server and world, so nothing tells them apart.
\<close>

theorem C9_same_nil_return_for_stop_and_fatal_watch_error:
  assumes "fst (Serve X this w pre) = blocks" and "subs_ok this w"
  shows "fst (Serve X this w (pre @ recv_closeCh # rest)) = returns None
   \<and> fst (Serve X this w (pre @ recv_machineEventChan (event\<lparr>Type := ERROR\<rparr>) # rest)) = returns None
   \<and> fst (Serve X this w (pre @ recv_digestEventChan (event\<lparr>Type := ERROR\<rparr>) # rest)) = returns None
   \<and> Serve X this w (pre @ recv_machineEventChan (event\<lparr>Type := ERROR\<rparr>) # rest) =
       Serve X this w (pre @ recv_closeCh # rest)
   \<and> Serve X this w (pre @ recv_digestEventChan (event\<lparr>Type := ERROR\<rparr>) # rest) =
       Serve X this w (pre @ recv_closeCh # rest)"
proof -
  from assms(1) have blk: "fst (Serve_body X this w pre) = blocks"
    by (simp add: Serve_blocks)
  have 1: "fst (Serve X this w (pre @ recv_closeCh # rest)) = returns None"
    using Serve_body_breaking[OF blk select_body_breaks(1)]
    by (simp add: Serve_outcome_of_body[OF assms(2)])
  have 2: "Serve X this w (pre @ recv_machineEventChan (event\<lparr>Type := ERROR\<rparr>) # rest) =
       Serve X this w (pre @ recv_closeCh # rest)"
    by (rule Serve_breaking_same[OF select_body_breaks(2) select_body_breaks(1)])
  have 3: "Serve X this w (pre @ recv_digestEventChan (event\<lparr>Type := ERROR\<rparr>) # rest) =
       Serve X this w (pre @ recv_closeCh # rest)"
    by (rule Serve_breaking_same[OF select_body_breaks(3) select_body_breaks(1)])
  from 1 2 3 show ?thesis by simp
qed

text \<open>Claim C9 on the concrete environment, after one timer expiry.\<close>

theorem C9_same_nil_return_for_stop_and_fatal_watch_error_witness:
  "fst (Serve example_X (example_Server 9 (\<lambda>t. t + 5)) example_world [recv_timer_C]) = blocks
   \<and> fst (Serve example_X (example_Server 9 (\<lambda>t. t + 5)) example_world
             ([recv_timer_C] @ recv_closeCh # [])) = returns None
   \<and> fst (Serve example_X (example_Server 9 (\<lambda>t. t + 5)) example_world
             ([recv_timer_C] @ recv_machineEventChan ((example_event CREATE [])\<lparr>Type := ERROR\<rparr>) # []))
       = returns None
   \<and> fst (Serve example_X (example_Server 9 (\<lambda>t. t + 5)) example_world
             ([recv_timer_C] @ recv_digestEventChan ((example_event CREATE [])\<lparr>Type := ERROR\<rparr>) # []))
       = returns None"
proof -
  have b: "fst (Serve example_X (example_Server 9 (\<lambda>t. t + 5)) example_world [recv_timer_C]) = blocks"
    by code_simp
  have ok: "subs_ok (example_Server 9 (\<lambda>t. t + 5)) example_world"
    by (simp add: subs_ok_def example_Server_def Prepare_def)
  from C9_same_nil_return_for_stop_and_fatal_watch_error[OF b ok, of "[]" "example_event CREATE []"] b
  show ?thesis by simp
qed

text \<open>
  Claim C1 says that every exit of the loop closes all three watchers. The code closes two:
  here the three watches give the watchers 0, 1 and 2, the loop ends on the stop signal,
  \<^verbatim>\<open>Serve\<close> returns nil, and the only \<^verbatim>\<open>Close\<close> calls are on 0 and 1. The watcher 2 of
  \<^verbatim>\<open>autoDiscObserver\<close> stays open.
\<close>

theorem C1_autoDiscObserver_left_open:
  "fst (Serve example_X (example_Server 9 (\<lambda>t. t + 5)) example_world [recv_closeCh]) = returns None
   \<and> autoDiscObserver (fst (snd (Serve example_X (example_Server 9 (\<lambda>t. t + 5)) example_world
         [recv_closeCh]))) = Some 2
   \<and> Watcher_Close_calls (since example_world
         (snd (snd (Serve example_X (example_Server 9 (\<lambda>t. t + 5)) example_world [recv_closeCh]))))
       = [0, 1]"
  by code_simp

text \<open>
  Claim C2 says that a failed \<^verbatim>\<open>Watch\<close> closes the watchers opened before it. The error is
  returned, but nothing is closed: when the second \<^verbatim>\<open>Watch\<close> fails the watcher 0 of
  \<^verbatim>\<open>machineObserver\<close> stays open, and when the third fails the watchers 0 and 1 stay open.
\<close>

theorem C2_opened_watchers_left_open_on_failure:
  "fst (Serve example_X (example_Server 1 (\<lambda>t. t + 5)) example_world [recv_closeCh]) =
      returns (Some (Error ''watch failed''))
   \<and> machineObserver (fst (snd (Serve example_X (example_Server 1 (\<lambda>t. t + 5)) example_world
         [recv_closeCh]))) = Some 0
   \<and> Watcher_Close_calls (since example_world
         (snd (snd (Serve example_X (example_Server 1 (\<lambda>t. t + 5)) example_world [recv_closeCh]))))
       = []
   \<and> fst (Serve example_X (example_Server 2 (\<lambda>t. t + 5)) example_world [recv_closeCh]) =
      returns (Some (Error ''watch failed''))
   \<and> machineObserver (fst (snd (Serve example_X (example_Server 2 (\<lambda>t. t + 5)) example_world
         [recv_closeCh]))) = Some 0
   \<and> digestObserver (fst (snd (Serve example_X (example_Server 2 (\<lambda>t. t + 5)) example_world
         [recv_closeCh]))) = Some 1
   \<and> Watcher_Close_calls (since example_world
         (snd (snd (Serve example_X (example_Server 2 (\<lambda>t. t + 5)) example_world [recv_closeCh]))))
       = []"
  by code_simp

end
